theory Spec2Isabelle
  imports Complex_Main "HOL-Library.Word" "HOL-Library.AList" "HOL-Library.Sublist"
begin

section \<open>MPD to HLS translation: \<open>mediaflow_proxy/mpd_processor.py\<close>\<close>

subsection \<open>Values, errors and Python helpers\<close>

type_synonym bytes = "8 word list"

text \<open>
  Every exception the modelled functions can raise is a value. \<open>KeyError k\<close> is a
  subscript \<open>d[k]\<close> on a dict without the key \<open>k\<close>; \<open>OverflowError\<close> is raised by
  the true division of two ints whose quotient does not fit a float;
  \<open>HTTPException\<close> carries a status code and a detail; \<open>External\<close> is
  whatever an external collaborator (the DRM decryptor) raises.
\<close>

datatype error = KeyError string | OverflowError | HTTPException nat string | External string

text \<open>Truthiness of an optional string: \<open>None\<close> and \<open>""\<close> are falsy.\<close>

definition truthy :: "string option \<Rightarrow> bool" where
  "truthy s = (case s of None \<Rightarrow> False | Some v \<Rightarrow> v \<noteq> [])"

text \<open>\<open>s or ""\<close> for an optional string.\<close>

definition or_empty :: "string option \<Rightarrow> string" where
  "or_empty s = (case s of None \<Rightarrow> [] | Some v \<Rightarrow> v)"

text \<open>\<open>d[k]\<close> on a field that may be missing.\<close>

definition subscript :: "string \<Rightarrow> 'a option \<Rightarrow> error + 'a" where
  "subscript k v = (case v of None \<Rightarrow> Inl (KeyError k) | Some x \<Rightarrow> Inr x)"

subsection \<open>Segment delivery: \<open>process_segment\<close>\<close>

record 'h response =
  content :: bytes
  media_type :: string
  headers :: 'h

text \<open>
  What \<open>process_segment\<close> does besides returning: it calls the decryptor, or it
  writes to its \<open>BytesIO\<close> buffer. (The timing line sent to the logger on the
  decryption path reads the wall clock and is left out.)
\<close>

datatype event = DecryptCall bytes bytes string string | BufWrite bytes

type_synonym decryptor = "bytes \<Rightarrow> bytes \<Rightarrow> string \<Rightarrow> string \<Rightarrow> error + bytes"

definition process_segment ::
  "decryptor \<Rightarrow> bytes \<Rightarrow> bytes \<Rightarrow> string \<Rightarrow> 'h \<Rightarrow> string option \<Rightarrow> string option
   \<Rightarrow> event list \<times> (error + 'h response)" where
  "process_segment decrypt_segment init_content segment_content mimetype hdrs key_id key =
     (if truthy key_id \<and> truthy key then
        ([DecryptCall init_content segment_content (or_empty key_id) (or_empty key)],
         case decrypt_segment init_content segment_content (or_empty key_id) (or_empty key) of
           Inl e \<Rightarrow> Inl e
         | Inr decrypted_content \<Rightarrow>
             Inr \<lparr>content = decrypted_content, media_type = mimetype, headers = hdrs\<rparr>)
      else
        ([BufWrite init_content, BufWrite segment_content],
         Inr \<lparr>content = init_content @ segment_content, media_type = mimetype,
              headers = hdrs\<rparr>))"

subsection \<open>Strings and numbers as Python prints them\<close>

text \<open>\<open>sub in s\<close> on strings: \<open>sub\<close> occurs in \<open>s\<close> as a contiguous block.\<close>

fun str_in :: "string \<Rightarrow> string \<Rightarrow> bool" where
  "str_in sub [] = (sub = [])"
| "str_in sub (c # cs) = (prefix sub (c # cs) \<or> str_in sub cs)"

text \<open>
  \<open>str.lower\<close>, on the letters \<open>A\<close> to \<open>Z\<close>. The result is only ever compared
  with \<open>"true"\<close>, and no other character lowers to one of \<open>t\<close>, \<open>r\<close>, \<open>u\<close>, \<open>e\<close>.
\<close>

definition lower_char :: "char \<Rightarrow> char" where
  "lower_char c =
     (case map_of (zip ''ABCDEFGHIJKLMNOPQRSTUVWXYZ'' ''abcdefghijklmnopqrstuvwxyz'') c of
        Some l \<Rightarrow> l
      | None \<Rightarrow> c)"

definition lower :: "string \<Rightarrow> string" where
  "lower s = map lower_char s"

text \<open>\<open>sep.join(xs)\<close>.\<close>

fun join :: "string \<Rightarrow> string list \<Rightarrow> string" where
  "join sep [] = []"
| "join sep [x] = x"
| "join sep (x # y # ys) = x @ sep @ join sep (y # ys)"

text \<open>\<open>str(n)\<close> for an int: decimal digits, a minus sign when negative.\<close>

definition digit_char :: "nat \<Rightarrow> char" where
  "digit_char d = (if d < 10 then ''0123456789'' ! d else CHR ''?'')"

fun str_nat :: "nat \<Rightarrow> string" where
  "str_nat n = (if n < 10 then [digit_char n] else str_nat (n div 10) @ [digit_char (n mod 10)])"

declare str_nat.simps [simp del]

definition str_int :: "int \<Rightarrow> string" where
  "str_int i = (if i < 0 then CHR ''-'' # str_nat (nat (- i)) else str_nat (nat i))"

text \<open>
  Rounding a non-negative quotient \<open>n / d\<close> (\<open>d > 0\<close>) to the nearest integer, ties
  to the even one: the rounding of IEEE 754 arithmetic and of Python's float formatting.
\<close>

definition round_half_even :: "int \<Rightarrow> int \<Rightarrow> int" where
  "round_half_even n d =
     (let q = n div d; r = n mod d
      in if 2 * r < d then q
         else if d < 2 * r then q + 1
         else if even q then q else q + 1)"

text \<open>
  A float is modelled by the rational number it holds (infinities and NaN are not
  modelled). \<open>format(x, ".3f")\<close> rounds the exact value to three decimals, ties to
  even, and pads the fraction with zeros.
\<close>

definition pad3 :: "string \<Rightarrow> string" where
  "pad3 s = (if length s = 1 then ''00'' @ s else if length s = 2 then ''0'' @ s else s)"

definition fmt_3f :: "rat \<Rightarrow> string" where
  "fmt_3f x =
     (let (n, d) = quotient_of \<bar>x\<bar>;
          m = nat (round_half_even (n * 1000) d)
      in (if x < 0 then [CHR ''-''] else []) @ str_nat (m div 1000) @ [CHR ''.'']
         @ pad3 (str_nat (m mod 1000)))"

text \<open>\<open>math.ceil(x)\<close> on a float.\<close>

definition ceil_float :: "rat \<Rightarrow> int" where
  "ceil_float x = \<lceil>x\<rceil>"

text \<open>\<open>max(xs)\<close> on a non-empty list (the caller checks that it is non-empty).\<close>

fun max_list :: "rat \<Rightarrow> rat list \<Rightarrow> rat" where
  "max_list m [] = m"
| "max_list m (x # xs) = max_list (if m < x then x else m) xs"

text \<open>
  \<open>math.floor(a / b)\<close> for ints \<open>a\<close> and \<open>b > 0\<close>. The true division of two ints is
  the float nearest to the exact quotient (53 significant bits, ties to even), and
  raises \<open>OverflowError\<close> when that is beyond the largest float; \<open>math.floor\<close> then
  gives an int exactly. \<open>bit_length n\<close> is \<open>n.bit_length()\<close>.
\<close>

fun bit_length :: "nat \<Rightarrow> nat" where
  "bit_length n = (if n = 0 then 0 else Suc (bit_length (n div 2)))"

declare bit_length.simps [simp del]

text \<open>
  \<open>float_exponent a b\<close> is the binary exponent \<open>e\<close> of the quotient of \<open>a > 0\<close> by
  \<open>b > 0\<close>: \<open>2 ^ e \<le> a / b < 2 ^ (e + 1)\<close>. \<open>float_quotient a b\<close> is the float \<open>a / b\<close>
  for \<open>a \<ge> 0\<close>, \<open>b > 0\<close>, as a pair \<open>(m, s)\<close> standing for \<open>m * 2 ^ s\<close> when \<open>s \<ge> 0\<close> and
  for \<open>m / 2 ^ (- s)\<close> otherwise: the spacing of the floats around the quotient is
  \<open>2 ^ (e - 52)\<close>, and never less than \<open>2 ^ (- 1074)\<close>.
\<close>

definition float_exponent :: "int \<Rightarrow> int \<Rightarrow> int" where
  "float_exponent a b =
     (if b \<le> a then int (bit_length (nat (a div b))) - 1
      else - int (bit_length (nat ((b - 1) div a))))"

definition float_quotient :: "int \<Rightarrow> int \<Rightarrow> int \<times> int" where
  "float_quotient a b =
     (if a = 0 then (0, 0)
      else let s = max (float_exponent a b - 52) (- 1074)
           in if s \<ge> 0 then (round_half_even a (b * 2 ^ nat s), s)
              else (round_half_even (a * 2 ^ nat (- s)) b, s))"

definition float_overflows :: "int \<times> int \<Rightarrow> bool" where
  "float_overflows f = (case f of (m, s) \<Rightarrow> s \<ge> 0 \<and> m * 2 ^ nat s \<ge> 2 ^ 1024)"

definition floor_float :: "int \<times> int \<Rightarrow> int" where
  "floor_float f = (case f of (m, s) \<Rightarrow> if s \<ge> 0 then m * 2 ^ nat s else m div 2 ^ nat (- s))"

definition ceil_of_float :: "int \<times> int \<Rightarrow> int" where
  "ceil_of_float f =
     (case f of (m, s) \<Rightarrow> if s \<ge> 0 then m * 2 ^ nat s else - ((- m) div 2 ^ nat (- s)))"

definition floor_truediv :: "int \<Rightarrow> int \<Rightarrow> error + int" where
  "floor_truediv a b =
     (let f = float_quotient \<bar>a\<bar> b
      in if float_overflows f then Inl OverflowError
         else if a < 0 then Inr (- ceil_of_float f)
         else Inr (floor_float f))"

subsection \<open>The manifest description\<close>

text \<open>
  The parsed MPD is a dict of dicts. Each dict is a record of the keys the code reads,
  a field being \<open>None\<close> when the dict has no such key: \<open>d[k]\<close> then raises
  \<open>KeyError\<close> and \<open>d.get(k, v)\<close> gives \<open>v\<close>.
\<close>

record segment =
  extinf :: "rat option"
  media :: "string option"
  number :: "int option"
  time :: "int option"
  duration_mpd_timescale :: "int option"

record profile =
  id_p :: "string option"
  mimeType :: "string option"
  lang :: "string option"
  bandwidth :: "int option"
  width :: "int option"
  height :: "int option"
  codecs :: "string option"
  frameRate :: "string option"
  initUrl :: "string option"
  segments :: "segment list option"
  segment_template_start_number :: "int option"

record mpd_dict =
  isLive :: "bool option"
  profiles :: "profile list option"

text \<open>
  A Python dict keeps its keys in insertion order, and storing under a key it has
  keeps the key's place: an association list with \<open>AList.update\<close>. \<open>pop\<close> is
  \<open>AList.delete\<close>, \<open>get\<close> is \<open>map_of\<close>, \<open>values()\<close> is \<open>map snd\<close>.
\<close>

type_synonym params = "(string \<times> string) list"

text \<open>
  The request, as far as the builders read it: \<open>dict(request.query_params)\<close>, and the
  two endpoint URLs \<open>str(request.url_for(name).replace(scheme=get_original_scheme(request)))\<close>.
\<close>

record request =
  query_params :: params
  playlist_endpoint :: string
  segment_endpoint :: string

text \<open>
  \<open>encode_mediaflow_proxy_url(url, query_params=..., encryption_handler=...)\<close> is an
  external function: a parameter. The flag says whether the encryption handler is passed.
\<close>

type_synonym encoder = "string \<Rightarrow> params \<Rightarrow> bool \<Rightarrow> string"

text \<open>\<open>query_params.pop("has_encrypted", "false").lower() == "true"\<close>.\<close>

definition has_encrypted_of :: "params \<Rightarrow> bool" where
  "has_encrypted_of qp =
     (lower (case map_of qp ''has_encrypted'' of None \<Rightarrow> ''false'' | Some v \<Rightarrow> v) = ''true'')"

subsection \<open>The master playlist: \<open>build_hls\<close>\<close>

type_synonym entries = "(string \<times> profile \<times> string) list"

record classified =
  c_params :: params
  video_profiles :: entries
  audio_profiles :: entries

text \<open>One round of the loop over \<open>mpd_dict["profiles"]\<close>.\<close>

definition classify_profile ::
  "encoder \<Rightarrow> string \<Rightarrow> bool \<Rightarrow> string option \<Rightarrow> string option \<Rightarrow> profile \<Rightarrow> classified
   \<Rightarrow> error + classified" where
  "classify_profile encode proxy_url has_encrypted key_id key p st =
     (case subscript ''id'' (id_p p) of Inl e \<Rightarrow> Inl e | Inr pid \<Rightarrow>
        let qp = AList.update ''key'' (or_empty key)
                   (AList.update ''key_id'' (or_empty key_id)
                     (AList.update ''profile_id'' pid (c_params st)));
            playlist_url = encode proxy_url qp has_encrypted
        in case subscript ''mimeType'' (mimeType p) of Inl e \<Rightarrow> Inl e | Inr mt \<Rightarrow>
             if str_in ''video'' mt then
               Inr (st\<lparr>c_params := qp,
                       video_profiles := AList.update pid (p, playlist_url) (video_profiles st)\<rparr>)
             else if str_in ''audio'' mt then
               Inr (st\<lparr>c_params := qp,
                       audio_profiles := AList.update pid (p, playlist_url) (audio_profiles st)\<rparr>)
             else Inr (st\<lparr>c_params := qp\<rparr>))"

fun classify_profiles ::
  "encoder \<Rightarrow> string \<Rightarrow> bool \<Rightarrow> string option \<Rightarrow> string option \<Rightarrow> profile list \<Rightarrow> classified
   \<Rightarrow> error + classified" where
  "classify_profiles encode proxy_url has_encrypted key_id key [] st = Inr st"
| "classify_profiles encode proxy_url has_encrypted key_id key (p # ps) st =
     (case classify_profile encode proxy_url has_encrypted key_id key p st of
        Inl e \<Rightarrow> Inl e
      | Inr st' \<Rightarrow> classify_profiles encode proxy_url has_encrypted key_id key ps st')"

text \<open>The \<open>#EXT-X-MEDIA\<close> line of one audio profile.\<close>

definition audio_line :: "bool \<Rightarrow> profile \<Rightarrow> string \<Rightarrow> error + string" where
  \<open>audio_line first p playlist_url =
     (let is_default = (if first then ''YES'' else ''NO'')
      in case subscript ''id'' (id_p p) of Inl e \<Rightarrow> Inl e | Inr pid \<Rightarrow>
           Inr (''#EXT-X-MEDIA:TYPE=AUDIO,GROUP-ID="audio",NAME="'' @ pid
                @ ''",DEFAULT='' @ is_default @ '',AUTOSELECT='' @ is_default
                @ '',LANGUAGE="'' @ (case lang p of None \<Rightarrow> ''und'' | Some l \<Rightarrow> l)
                @ ''",URI="'' @ playlist_url @ ''"''))\<close>

text \<open>The loop over \<open>enumerate(audio_profiles.values())\<close>, from index \<open>i\<close> on.\<close>

fun audio_lines :: "nat \<Rightarrow> (profile \<times> string) list \<Rightarrow> string list \<Rightarrow> error + string list" where
  "audio_lines i [] hls = Inr hls"
| "audio_lines i ((p, playlist_url) # rest) hls =
     (case audio_line (i = 0) p playlist_url of
        Inl e \<Rightarrow> Inl e
      | Inr l \<Rightarrow> audio_lines (Suc i) rest (hls @ [l]))"

text \<open>The \<open>#EXT-X-STREAM-INF\<close> line of one video profile.\<close>

definition stream_inf_line :: "bool \<Rightarrow> profile \<Rightarrow> error + string" where
  \<open>stream_inf_line has_audio p =
     (let audio_attr = (if has_audio then '',AUDIO="audio"'' else '''')
      in case subscript ''bandwidth'' (bandwidth p) of Inl e \<Rightarrow> Inl e | Inr bw \<Rightarrow>
         case subscript ''width'' (width p) of Inl e \<Rightarrow> Inl e | Inr w \<Rightarrow>
         case subscript ''height'' (height p) of Inl e \<Rightarrow> Inl e | Inr h \<Rightarrow>
         case subscript ''codecs'' (codecs p) of Inl e \<Rightarrow> Inl e | Inr c \<Rightarrow>
         case subscript ''frameRate'' (frameRate p) of Inl e \<Rightarrow> Inl e | Inr fr \<Rightarrow>
           Inr (''#EXT-X-STREAM-INF:BANDWIDTH='' @ str_int bw @ '',RESOLUTION='' @ str_int w
                @ ''x'' @ str_int h @ '',CODECS="'' @ c @ ''",FRAME-RATE='' @ fr @ audio_attr))\<close>

text \<open>The loop over \<open>video_profiles.values()\<close>.\<close>

fun video_lines :: "bool \<Rightarrow> (profile \<times> string) list \<Rightarrow> string list \<Rightarrow> error + string list" where
  "video_lines has_audio [] hls = Inr hls"
| "video_lines has_audio ((p, playlist_url) # rest) hls =
     (case stream_inf_line has_audio p of
        Inl e \<Rightarrow> Inl e
      | Inr l \<Rightarrow> video_lines has_audio rest (hls @ [l, playlist_url]))"

text \<open>The two dicts the first loop fills, and the list \<open>hls\<close> before it is joined.\<close>

definition classify ::
  "encoder \<Rightarrow> mpd_dict \<Rightarrow> request \<Rightarrow> string option \<Rightarrow> string option \<Rightarrow> error + classified" where
  "classify encode mpd req key_id key =
     (let has_encrypted = has_encrypted_of (query_params req);
          qp = AList.delete ''has_encrypted'' (query_params req)
      in case subscript ''profiles'' (profiles mpd) of Inl e \<Rightarrow> Inl e | Inr ps \<Rightarrow>
           classify_profiles encode (playlist_endpoint req) has_encrypted key_id key ps
             \<lparr>c_params = qp, video_profiles = [], audio_profiles = []\<rparr>)"

definition build_hls_lines ::
  "encoder \<Rightarrow> mpd_dict \<Rightarrow> request \<Rightarrow> string option \<Rightarrow> string option \<Rightarrow> error + string list" where
  "build_hls_lines encode mpd req key_id key =
     (case classify encode mpd req key_id key of Inl e \<Rightarrow> Inl e | Inr st \<Rightarrow>
        case audio_lines 0 (map snd (audio_profiles st)) [''#EXTM3U'', ''#EXT-X-VERSION:6''] of
          Inl e \<Rightarrow> Inl e
        | Inr hls \<Rightarrow> video_lines (audio_profiles st \<noteq> []) (map snd (video_profiles st)) hls)"

definition build_hls ::
  "encoder \<Rightarrow> mpd_dict \<Rightarrow> request \<Rightarrow> string option \<Rightarrow> string option \<Rightarrow> error + string" where
  "build_hls encode mpd req key_id key =
     (case build_hls_lines encode mpd req key_id key of
        Inl e \<Rightarrow> Inl e
      | Inr hls \<Rightarrow> Inr (join ''\<newline>'' hls))"

text \<open>
  A call of \<open>build_hls\<close> with the objects it is handed threaded through. The function
  writes to the copy \<open>dict(request.query_params)\<close>, to its list \<open>hls\<close> and to its two
  dicts, all of its own making; the manifest and the request are after the call what
  they were before it.
\<close>

definition build_hls_call ::
  "encoder \<Rightarrow> string option \<Rightarrow> string option \<Rightarrow> mpd_dict \<times> request
   \<Rightarrow> (error + string) \<times> (mpd_dict \<times> request)" where
  "build_hls_call encode key_id key env =
     (build_hls encode (fst env) (snd env) key_id key, env)"

subsection \<open>The media playlist: \<open>build_hls_playlist\<close>\<close>

datatype log_record = Warning string | Info string

record playlist_state =
  hls :: "string list"
  added_segments :: nat
  log :: "log_record list"

text \<open>\<open>math.ceil(max(extinf_values)) if extinf_values else 3\<close>.\<close>

definition target_duration :: "segment list \<Rightarrow> int" where
  "target_duration segs =
     (case List.map_filter extinf segs of
        [] \<Rightarrow> 3
      | v # vs \<Rightarrow> ceil_float (max_list v vs))"

text \<open>\<open>first_segment.get("number", dflt)\<close>.\<close>

definition number_or :: "segment \<Rightarrow> int \<Rightarrow> int" where
  "number_or first_segment dflt = (case number first_segment of None \<Rightarrow> dflt | Some n \<Rightarrow> n)"

text \<open>The value of \<open>sequence\<close> (lines 150 to 163).\<close>

definition sequence_by_time :: "mpd_dict \<Rightarrow> segment \<Rightarrow> error + int" where
  "sequence_by_time mpd first_segment =
     (case time first_segment of
        None \<Rightarrow> Inr (number_or first_segment 1)
      | Some time_val \<Rightarrow>
          (case duration_mpd_timescale first_segment of
             None \<Rightarrow> Inr (number_or first_segment 1)
           | Some duration_val \<Rightarrow>
               if duration_val \<noteq> 0 \<and> duration_val > 0 then
                 (case floor_truediv time_val duration_val of
                    Inl e \<Rightarrow> Inl e
                  | Inr calculated_sequence \<Rightarrow>
                      if (case isLive mpd of None \<Rightarrow> False | Some b \<Rightarrow> b)
                         \<and> calculated_sequence > 100000
                      then Inr (calculated_sequence mod 100000)
                      else Inr calculated_sequence)
               else Inr (number_or first_segment 1)))"

definition sequence :: "mpd_dict \<Rightarrow> profile \<Rightarrow> segment \<Rightarrow> error + int" where
  "sequence mpd p first_segment =
     (case segment_template_start_number p of
        None \<Rightarrow> sequence_by_time mpd first_segment
      | Some mpd_start_number \<Rightarrow>
          if mpd_start_number \<noteq> 0 \<and> mpd_start_number \<ge> 1000
          then Inr (number_or first_segment mpd_start_number)
          else sequence_by_time mpd first_segment)"

text \<open>The body of \<open>if index == 0\<close>.\<close>

definition playlist_header ::
  "mpd_dict \<Rightarrow> profile \<Rightarrow> segment list \<Rightarrow> segment \<Rightarrow> playlist_state \<Rightarrow> error + playlist_state" where
  "playlist_header mpd p segs first_segment st =
     (case sequence mpd p first_segment of Inl e \<Rightarrow> Inl e | Inr sq \<Rightarrow>
        let st1 = st\<lparr>hls := hls st @ [''#EXT-X-TARGETDURATION:'' @ str_int (target_duration segs),
                                      ''#EXT-X-MEDIA-SEQUENCE:'' @ str_int sq]\<rparr>
        in case subscript ''isLive'' (isLive mpd) of Inl e \<Rightarrow> Inl e | Inr live \<Rightarrow>
             Inr (st1\<lparr>hls := hls st1 @ [if live then ''#EXT-X-PLAYLIST-TYPE:LIVE''
                                         else ''#EXT-X-PLAYLIST-TYPE:VOD'']\<rparr>))"

text \<open>The loop over the segments of one profile; \<open>qp\<close> is its dict \<open>query_params\<close>.\<close>

fun segment_lines ::
  "encoder \<Rightarrow> string \<Rightarrow> bool \<Rightarrow> string \<Rightarrow> profile \<Rightarrow> segment list \<Rightarrow> params \<times> playlist_state
   \<Rightarrow> error + params \<times> playlist_state" where
  "segment_lines encode proxy_url has_encrypted init_url p [] st = Inr st"
| "segment_lines encode proxy_url has_encrypted init_url p (s # ss) (qp, st) =
     (case subscript ''extinf'' (extinf s) of Inl e \<Rightarrow> Inl e | Inr x \<Rightarrow>
      case subscript ''media'' (media s) of Inl e \<Rightarrow> Inl e | Inr m \<Rightarrow>
      case subscript ''mimeType'' (mimeType p) of Inl e \<Rightarrow> Inl e | Inr mt \<Rightarrow>
        let qp' = AList.update ''mime_type'' mt
                    (AList.update ''segment_url'' m (AList.update ''init_url'' init_url qp))
        in segment_lines encode proxy_url has_encrypted init_url p ss
             (qp', st\<lparr>hls := hls st @ [''#EXTINF:'' @ fmt_3f x @ '','',
                                        encode proxy_url qp' has_encrypted],
                      added_segments := added_segments st + 1\<rparr>))"

text \<open>
  One round of the loop over \<open>enumerate(profiles)\<close>, at index \<open>index\<close>: the state
  after the round (after \<open>continue\<close> for a profile without segments).
\<close>

definition playlist_profile ::
  "encoder \<Rightarrow> mpd_dict \<Rightarrow> request \<Rightarrow> nat \<Rightarrow> profile \<Rightarrow> playlist_state
   \<Rightarrow> error + playlist_state" where
  "playlist_profile encode mpd req index p st =
     (case subscript ''segments'' (segments p) of Inl e \<Rightarrow> Inl e | Inr segs \<Rightarrow>
        (case segs of
           [] \<Rightarrow>
             (case subscript ''id'' (id_p p) of Inl e \<Rightarrow> Inl e | Inr pid \<Rightarrow>
                Inr (st\<lparr>log := log st @ [Warning (''No segments found for profile '' @ pid)]\<rparr>))
         | first_segment # _ \<Rightarrow>
             (case (if index = 0 then playlist_header mpd p segs first_segment st else Inr st) of
                Inl e \<Rightarrow> Inl e
              | Inr st1 \<Rightarrow>
                  (case subscript ''initUrl'' (initUrl p) of Inl e \<Rightarrow> Inl e | Inr init_url \<Rightarrow>
                     let qp = AList.delete ''d'' (AList.delete ''profile_id'' (query_params req));
                         has_encrypted = has_encrypted_of qp;
                         qp = AList.delete ''has_encrypted'' qp
                     in case segment_lines encode (segment_endpoint req) has_encrypted init_url
                               p segs (qp, st1) of
                          Inl e \<Rightarrow> Inl e
                        | Inr (qp', st2) \<Rightarrow> Inr st2))))"

text \<open>The loop over \<open>enumerate(profiles)\<close>, from index \<open>index\<close> on.\<close>

fun playlist_profiles ::
  "encoder \<Rightarrow> mpd_dict \<Rightarrow> request \<Rightarrow> nat \<Rightarrow> profile list \<Rightarrow> playlist_state
   \<Rightarrow> error + playlist_state" where
  "playlist_profiles encode mpd req index [] st = Inr st"
| "playlist_profiles encode mpd req index (p # ps) st =
     (case playlist_profile encode mpd req index p st of
        Inl e \<Rightarrow> Inl e
      | Inr st' \<Rightarrow> playlist_profiles encode mpd req (Suc index) ps st')"

text \<open>
  The whole function, as the state it ends in; \<open>build_hls_playlist\<close> is the string it
  returns.
\<close>

definition build_hls_playlist_state ::
  "encoder \<Rightarrow> mpd_dict \<Rightarrow> profile list \<Rightarrow> request \<Rightarrow> error + playlist_state" where
  "build_hls_playlist_state encode mpd ps req =
     (case playlist_profiles encode mpd req 0 ps
             \<lparr>hls = [''#EXTM3U'', ''#EXT-X-VERSION:6''], added_segments = 0, log = []\<rparr> of
        Inl e \<Rightarrow> Inl e
      | Inr st \<Rightarrow>
          (case subscript ''isLive'' (isLive mpd) of Inl e \<Rightarrow> Inl e | Inr live \<Rightarrow>
             let st1 = (if \<not> live then st\<lparr>hls := hls st @ [''#EXT-X-ENDLIST'']\<rparr> else st)
             in Inr (st1\<lparr>log := log st1 @ [Info (''Added '' @ str_nat (added_segments st1)
                                                @ '' segments to HLS playlist'')]\<rparr>)))"

definition build_hls_playlist ::
  "encoder \<Rightarrow> mpd_dict \<Rightarrow> profile list \<Rightarrow> request \<Rightarrow> error + string" where
  "build_hls_playlist encode mpd ps req =
     (case build_hls_playlist_state encode mpd ps req of
        Inl e \<Rightarrow> Inl e
      | Inr st \<Rightarrow> Inr (join ''\<newline>'' (hls st)))"

text \<open>
  \<open>process_playlist\<close>, up to the response it wraps the text in: the profiles whose id is
  the requested one, in the manifest's order, or 404.
\<close>

fun matching_profiles :: "string \<Rightarrow> profile list \<Rightarrow> error + profile list" where
  "matching_profiles profile_id [] = Inr []"
| "matching_profiles profile_id (p # ps) =
     (case subscript ''id'' (id_p p) of Inl e \<Rightarrow> Inl e | Inr pid \<Rightarrow>
        case matching_profiles profile_id ps of Inl e \<Rightarrow> Inl e | Inr ms \<Rightarrow>
          Inr (if pid = profile_id then p # ms else ms))"

definition process_playlist ::
  "encoder \<Rightarrow> request \<Rightarrow> mpd_dict \<Rightarrow> string \<Rightarrow> error + string" where
  "process_playlist encode req mpd profile_id =
     (case subscript ''profiles'' (profiles mpd) of Inl e \<Rightarrow> Inl e | Inr ps \<Rightarrow>
      case matching_profiles profile_id ps of Inl e \<Rightarrow> Inl e | Inr ms \<Rightarrow>
        if ms = [] then Inl (HTTPException 404 ''Profile not found'')
        else build_hls_playlist encode mpd ms req)"

subsection \<open>Vocabulary of the properties\<close>

text \<open>
  The profiles the first loop of \<open>build_hls\<close> stores as video and as audio: the test
  for \<open>"video"\<close> comes first, the test for \<open>"audio"\<close> is its \<open>elif\<close>.
\<close>

definition is_video :: "profile \<Rightarrow> bool" where
  "is_video p = (case mimeType p of None \<Rightarrow> False | Some mt \<Rightarrow> str_in ''video'' mt)"

definition is_audio :: "profile \<Rightarrow> bool" where
  "is_audio p =
     (case mimeType p of None \<Rightarrow> False
      | Some mt \<Rightarrow> \<not> str_in ''video'' mt \<and> str_in ''audio'' mt)"

text \<open>A video profile has the five fields its \<open>#EXT-X-STREAM-INF\<close> line prints.\<close>

definition stream_inf_fields :: "profile \<Rightarrow> bool" where
  "stream_inf_fields p \<longleftrightarrow>
     bandwidth p \<noteq> None \<and> width p \<noteq> None \<and> height p \<noteq> None \<and> codecs p \<noteq> None
     \<and> frameRate p \<noteq> None"

text \<open>
  Two states of the playlist loop with the same lines and the same count of segments
  (their logs may differ).
\<close>

definition same_output :: "playlist_state \<Rightarrow> playlist_state \<Rightarrow> bool" where
  "same_output s t \<longleftrightarrow> hls s = hls t \<and> added_segments s = added_segments t"

text \<open>
  The lines of a playlist text, as \<open>text.split("\n")\<close> gives them, and the strings
  that hold no newline: joined by newlines, such strings are the lines of the text.
\<close>

fun text_lines :: "string \<Rightarrow> string list" where
  "text_lines [] = [[]]"
| "text_lines (c # cs) =
     (if c = CHR ''\<newline>'' then [] # text_lines cs
      else (case text_lines cs of [] \<Rightarrow> [[c]] | l # ls \<Rightarrow> (c # l) # ls))"

definition no_newline :: "string \<Rightarrow> bool" where
  "no_newline s \<longleftrightarrow> CHR ''\<newline>'' \<notin> set s"

text \<open>The strings of a profile that \<open>build_hls\<close> prints hold no newline.\<close>

definition plain_fields :: "profile \<Rightarrow> bool" where
  "plain_fields p \<longleftrightarrow>
     (case id_p p of None \<Rightarrow> True | Some s \<Rightarrow> no_newline s)
     \<and> (case lang p of None \<Rightarrow> True | Some s \<Rightarrow> no_newline s)
     \<and> (case codecs p of None \<Rightarrow> True | Some s \<Rightarrow> no_newline s)
     \<and> (case frameRate p of None \<Rightarrow> True | Some s \<Rightarrow> no_newline s)"

subsection \<open>A sample manifest\<close>

text \<open>
  The inputs the properties below are tried on: a codec that appends the profile id or
  the segment URL, less its newlines, to the endpoint, a request, and profiles after the
  scenario of the specification (a video profile \<open>v1\<close> of two segments of four
  seconds).
\<close>

definition sample_encode :: encoder where
  "sample_encode url qp enc =
     url @ ''?'' @ filter (\<lambda>c. c \<noteq> CHR ''\<newline>'')
       (case map_of qp ''segment_url'' of
          Some m \<Rightarrow> m
        | None \<Rightarrow> (case map_of qp ''profile_id'' of Some i \<Rightarrow> i | None \<Rightarrow> []))"

definition sample_request :: request where
  "sample_request =
     \<lparr>query_params = [(''d'', ''http://o/m.mpd''), (''has_encrypted'', ''false'')],
      playlist_endpoint = ''http://p/playlist'', segment_endpoint = ''http://p/segment''\<rparr>"

definition sample_segment :: "int \<Rightarrow> segment" where
  "sample_segment n =
     \<lparr>extinf = Some 4, media = Some (''s'' @ str_int n), number = Some n, time = None,
      duration_mpd_timescale = None\<rparr>"

definition sample_video :: profile where
  "sample_video =
     \<lparr>id_p = Some ''v1'', mimeType = Some ''video/mp4'', lang = None, bandwidth = Some 500000,
      width = Some 640, height = Some 360, codecs = Some ''avc1'', frameRate = Some ''30'',
      initUrl = Some ''init'', segments = Some [sample_segment 1, sample_segment 2],
      segment_template_start_number = None\<rparr>"

definition sample_audio :: "string \<Rightarrow> string option \<Rightarrow> profile" where
  "sample_audio i l =
     \<lparr>id_p = Some i, mimeType = Some ''audio/mp4'', lang = l, bandwidth = None,
      width = None, height = None, codecs = None, frameRate = None,
      initUrl = Some ''init'', segments = Some [sample_segment 1],
      segment_template_start_number = None\<rparr>"

definition sample_mpd :: "profile list \<Rightarrow> mpd_dict" where
  "sample_mpd ps = \<lparr>isLive = Some False, profiles = Some ps\<rparr>"

section \<open>Properties\<close>

subsection \<open>Segment delivery\<close>

lemma truthy_iff: "truthy s \<longleftrightarrow> (\<exists>v. s = Some v \<and> v \<noteq> [])"
  by (cases s) (simp_all add: truthy_def)

text \<open>
  Claim C2. With a non-empty key id and a non-empty key, \<open>process_segment\<close> calls the
  decryptor exactly once, with the init bytes, the segment bytes, the key id and the key,
  and writes nothing to its buffer; the response holds the decryptor's result as it is,
  and a failure of the decryptor is the failure of \<open>process_segment\<close>.
\<close>

theorem process_segment_decrypts:
  assumes "kid \<noteq> []" and "k \<noteq> []"
  shows "fst (process_segment dec init seg mt h (Some kid) (Some k)) = [DecryptCall init seg kid k]
       \<and> (\<forall>d. dec init seg kid k = Inr d \<longrightarrow>
              snd (process_segment dec init seg mt h (Some kid) (Some k))
              = Inr \<lparr>content = d, media_type = mt, headers = h\<rparr>)
       \<and> (\<forall>e. dec init seg kid k = Inl e \<longrightarrow>
              snd (process_segment dec init seg mt h (Some kid) (Some k)) = Inl e)"
  using assms by (simp add: process_segment_def truthy_def or_empty_def)

theorem process_segment_decrypts_witness:
  "fst (process_segment (\<lambda>i s a b. if b = ''k1'' then Inr (rev s) else Inl (External ''bad key''))
          [1, 2] [3, 4, 5] ''video/mp4'' () (Some ''id1'') (Some ''k1''))
     = [DecryptCall [1, 2] [3, 4, 5] ''id1'' ''k1'']
   \<and> snd (process_segment (\<lambda>i s a b. if b = ''k1'' then Inr (rev s) else Inl (External ''bad key''))
          [1, 2] [3, 4, 5] ''video/mp4'' () (Some ''id1'') (Some ''k1''))
     = Inr \<lparr>content = [5, 4, 3], media_type = ''video/mp4'', headers = ()\<rparr>
   \<and> snd (process_segment (\<lambda>i s a b. if b = ''k1'' then Inr (rev s) else Inl (External ''bad key''))
          [1, 2] [3, 4, 5] ''video/mp4'' () (Some ''id1'') (Some ''k2''))
     = Inl (External ''bad key'')"
  using process_segment_decrypts
          [of "''id1''" "''k1''"
              "\<lambda>i s a b. if b = ''k1'' then Inr (rev s) else Inl (External ''bad key'')"
              "[1, 2]" "[3, 4, 5]" "''video/mp4''" "()"]
        process_segment_decrypts
          [of "''id1''" "''k2''"
              "\<lambda>i s a b. if b = ''k1'' then Inr (rev s) else Inl (External ''bad key'')"
              "[1, 2]" "[3, 4, 5]" "''video/mp4''" "()"]
  by simp

text \<open>
  Claim C5. When the key id or the key is absent or empty, \<open>process_segment\<close> returns
  the init bytes followed by the segment bytes and nothing else, whatever the bytes are
  (empty ones included), and the decryptor is not called.
\<close>

theorem process_segment_concatenates:
  assumes "key_id = None \<or> key_id = Some [] \<or> key = None \<or> key = Some []"
  shows "process_segment dec init seg mt h key_id key
         = ([BufWrite init, BufWrite seg],
            Inr \<lparr>content = init @ seg, media_type = mt, headers = h\<rparr>)"
  using assms by (auto simp add: process_segment_def truthy_def)

theorem process_segment_concatenates_witness:
  "process_segment (\<lambda>i s a b. Inl (External ''unused'')) [] [7, 8] ''audio/mp4'' () (Some ''id1'') (Some [])
     = ([BufWrite [], BufWrite [7, 8]],
        Inr \<lparr>content = [7, 8], media_type = ''audio/mp4'', headers = ()\<rparr>)"
  using process_segment_concatenates
          [of "Some ''id1''" "Some []" "\<lambda>i s a b. Inl (External ''unused'')" "[]" "[7, 8]"
              "''audio/mp4''" "()"]
  by simp

subsection \<open>The float quotient below \<open>2 ^ 53\<close>\<close>

lemma bit_length_bounds:
  "0 < n \<Longrightarrow> 2 ^ (bit_length n - 1) \<le> n \<and> n < 2 ^ bit_length n"
proof (induction n rule: bit_length.induct)
  case (1 n)
  show ?case
  proof (cases "n div 2 = 0")
    case True
    with "1.prems" have "n = 1" by presburger
    then show ?thesis by (simp add: bit_length.simps)
  next
    case False
    then have pos: "0 < n div 2" by simp
    from "1.prems" have n0: "n \<noteq> 0" by simp
    from "1.IH"[OF n0 pos]
    have ih: "2 ^ (bit_length (n div 2) - 1) \<le> n div 2" "n div 2 < 2 ^ bit_length (n div 2)"
      by simp_all
    have bl: "bit_length n = Suc (bit_length (n div 2))"
      using n0 by (subst bit_length.simps) simp
    have blpos: "0 < bit_length (n div 2)"
      using pos by (subst bit_length.simps) simp
    then obtain j where j: "bit_length (n div 2) = Suc j" by (cases "bit_length (n div 2)") auto
    from ih j have "2 * 2 ^ j \<le> n" "n < 2 * 2 ^ Suc j" by simp_all
    then show ?thesis by (simp add: bl j)
  qed
qed

lemma round_half_even_cases:
  "round_half_even n d = n div d \<or> (round_half_even n d = n div d + 1 \<and> d \<le> 2 * (n mod d))"
  by (auto simp add: round_half_even_def Let_def)

lemma bit_length_le:
  assumes "n < 2 ^ k" shows "bit_length n \<le> k"
proof (cases "n = 0")
  case True then show ?thesis by (simp add: bit_length.simps)
next
  case False
  then have "2 ^ (bit_length n - 1) \<le> n" using bit_length_bounds[of n] by simp
  with assms have "(2::nat) ^ (bit_length n - 1) < 2 ^ k" by linarith
  then have "bit_length n - 1 < k" by simp
  then show ?thesis by linarith
qed

text \<open>Rounding a scaled quotient up never reaches the next integer.\<close>

lemma scaled_round_div:
  fixes a b K :: int
  assumes a: "0 \<le> a" and b: "0 < b" and K: "0 < K"
    and small: "b < 2 * K"
  shows "round_half_even (a * K) b div K = a div b"
proof -
  define Q where "Q = (a * K) div b"
  define R where "R = (a * K) mod b"
  define q where "q = a div b"
  define r where "r = a mod b"
  have QR: "a * K = Q * b + R" "0 \<le> R" "R < b"
    using b by (simp_all add: Q_def R_def)
  have qr: "a = q * b + r" "0 \<le> r" "r < b"
    using b by (simp_all add: q_def r_def)
  have QK: "Q div K = q"
  proof -
    have "Q div K = (a * K) div (b * K)"
      unfolding Q_def using b K by (simp add: zdiv_zmult2_eq)
    also have "\<dots> = a div b" using K by simp
    finally show ?thesis by (simp add: q_def)
  qed
  from round_half_even_cases[of "a * K" b]
  consider "round_half_even (a * K) b = Q"
    | "round_half_even (a * K) b = Q + 1" "b \<le> 2 * R"
    by (auto simp add: Q_def R_def)
  then show ?thesis
  proof cases
    case 1
    then show ?thesis using QK by (simp add: q_def)
  next
    case 2
    have "(Q + 1) div K = q"
    proof (rule ccontr)
      assume neq: "(Q + 1) div K \<noteq> q"
      have Qm: "Q = q * K + Q mod K" using QK by (metis mult.commute mult_div_mod_eq)
      have m0: "0 \<le> Q mod K" "Q mod K < K" using K by simp_all
      have "Q mod K = K - 1"
      proof (rule ccontr)
        assume "Q mod K \<noteq> K - 1"
        with m0 have lt: "Q mod K + 1 < K" by linarith
        have "Q + 1 = q * K + (Q mod K + 1)" using Qm by linarith
        then have "(Q + 1) div K = q"
          using lt m0 K by (metis add.commute div_mult_self2 div_pos_pos_trivial add_nonneg_nonneg
              zero_le_one less_irrefl add_cancel_right_right mult.commute)
        with neq show False by simp
      qed
      with Qm have Qeq: "Q = q * K + K - 1" by linarith
      have "a * K = q * b * K + r * K" using qr(1) by (metis distrib_right)
      moreover have "a * K = (q * K + K - 1) * b + R" using QR(1) Qeq by simp
      ultimately have "K * (b - r) = b - R" by (simp add: algebra_simps)
      moreover have "K * 1 \<le> K * (b - r)" using K qr(3) by (intro mult_left_mono) simp_all
      ultimately have "K \<le> b - R" by simp
      with 2(2) small show False by linarith
    qed
    with 2(1) show ?thesis by (simp add: q_def)
  qed
qed

lemma round_half_even_nonneg: "0 \<le> n \<Longrightarrow> 0 < d \<Longrightarrow> 0 \<le> round_half_even n d"
  using round_half_even_cases[of n d] by (auto simp add: pos_imp_zdiv_nonneg_iff)

lemma small_quotient_round:
  fixes a b K :: int
  assumes a: "0 \<le> a" "a < 2 ^ 53" and ab: "a < b" and K: "2 ^ 53 \<le> K"
  shows "round_half_even (a * K) b div K = 0"
proof (cases "b < 2 * K")
  case True
  with a ab K have "round_half_even (a * K) b div K = a div b"
    by (intro scaled_round_div) simp_all
  then show ?thesis using a ab by simp
next
  case False
  define Q where "Q = (a * K) div b"
  have b: "0 < b" using a ab by simp
  have Kpos: "0 < K" using K by (simp add: less_le_trans[of 0 "2 ^ 53"])
  have Q0: "0 \<le> Q" unfolding Q_def using a b Kpos by (simp add: pos_imp_zdiv_nonneg_iff)
  have "Q * b \<le> a * K" unfolding Q_def using b
    by (metis mult.commute mult_div_mod_eq pos_mod_sign le_add_same_cancel1)
  moreover have "Q * (2 * K) \<le> Q * b" using Q0 False by (intro mult_left_mono) simp_all
  ultimately have "(2 * Q) * K \<le> a * K" by (simp add: algebra_simps)
  then have "2 * Q \<le> a" using Kpos by simp
  with a have "Q + 1 < K" using K by simp
  moreover have "round_half_even (a * K) b \<le> Q + 1"
    using round_half_even_cases[of "a * K" b] by (auto simp add: Q_def)
  moreover have "0 \<le> round_half_even (a * K) b"
    using a b Kpos by (intro round_half_even_nonneg) simp_all
  ultimately show ?thesis by simp
qed

lemma floor_truediv_exact:
  assumes a: "0 \<le> a" "a < 2 ^ 53" and b: "0 < b"
  shows "floor_truediv a b = Inr (a div b)"
proof -
  have res: "\<not> float_overflows (float_quotient a b) \<and> floor_float (float_quotient a b) = a div b"
  proof (cases "a = 0")
    case True
    then show ?thesis by (simp add: float_quotient_def float_overflows_def floor_float_def)
  next
    case a0: False
    define s where "s = max (float_exponent a b - 52) (- 1074)"
    have fq: "float_quotient a b =
        (if s \<ge> 0 then (round_half_even a (b * 2 ^ nat s), s)
         else (round_half_even (a * 2 ^ nat (- s)) b, s))"
      using a0 by (simp add: float_quotient_def s_def Let_def)
    show ?thesis
    proof (cases "b \<le> a")
      case ge: True
      define q where "q = nat (a div b)"
      have qpos: "0 < q" using ge b by (simp add: q_def pos_imp_zdiv_pos_iff)
      have qa: "int q * b \<le> a" using a b
        by (simp add: q_def pos_imp_zdiv_nonneg_iff)
           (metis mult.commute mult_div_mod_eq pos_mod_sign le_add_same_cancel1)
      have "int q * 1 \<le> int q * b" using b by (intro mult_left_mono) simp_all
      with qa have "int q \<le> a" by simp
      with a have "int q < 2 ^ 53" by linarith
      then have "q < 2 ^ 53" by (metis of_nat_less_numeral_power_cancel_iff)
      then have bl53: "bit_length q \<le> 53" by (rule bit_length_le)
      have blpos: "0 < bit_length q" using qpos by (subst bit_length.simps) simp
      have e: "float_exponent a b = int (bit_length q) - 1"
        using ge by (simp add: float_exponent_def q_def)
      have low: "2 ^ (bit_length q - 1) \<le> q" using bit_length_bounds[OF qpos] by simp
      show ?thesis
      proof (cases "bit_length q = 53")
        case True
        then have s0: "s = 0" by (simp add: s_def e)
        from low True have "(2::nat) ^ 52 \<le> q" by simp
        then have "(2::int) ^ 52 \<le> int q" by (metis numeral_power_le_of_nat_cancel_iff)
        then have "2 ^ 52 * b \<le> int q * b" using b by (intro mult_right_mono) simp_all
        with qa a have "2 ^ 52 * b < (2::int) ^ 53" by linarith
        then have b1: "b = 1" using b by simp
        have fq0: "float_quotient a b = (a, 0)"
          unfolding fq by (simp add: s0 b1 round_half_even_def)
        show ?thesis
          unfolding fq0 using a by (simp add: b1 float_overflows_def floor_float_def)
      next
        case False
        with bl53 blpos obtain k where k: "bit_length q + k = 53" "0 < k"
          by (metis add.commute le_add_diff_inverse less_le zero_less_diff)
        then have sk: "s = - int k" by (simp add: s_def e)
        have "(2::int) ^ (bit_length q - 1) \<le> int q" using low
          by (metis numeral_power_le_of_nat_cancel_iff)
        then have "2 ^ (bit_length q - 1) * b \<le> int q * b"
          using b by (intro mult_right_mono) simp_all
        with qa a have "2 ^ (bit_length q - 1) * b < (2::int) ^ 53" by linarith
        also have "(2::int) ^ 53 = 2 ^ (bit_length q - 1) * (2 * 2 ^ k)"
          using k blpos by (simp flip: power_Suc power_add)
        finally have "b < 2 * 2 ^ k" by simp
        with a b have "round_half_even (a * 2 ^ k) b div 2 ^ k = a div b"
          by (intro scaled_round_div) simp_all
        then show ?thesis using k
          by (simp add: fq sk float_overflows_def floor_float_def)
      qed
    next
      case lt: False
      have "float_exponent a b \<le> 0" using lt by (simp add: float_exponent_def)
      then have s: "s \<le> - 52" "- 1074 \<le> s" by (simp_all add: s_def)
      have "float_exponent a b \<noteq> 0"
      proof -
        have "0 < (b - 1) div a" using lt a a0 by (simp add: pos_imp_zdiv_pos_iff)
        then have "0 < nat ((b - 1) div a)" by simp
        then have "0 < bit_length (nat ((b - 1) div a))" by (subst bit_length.simps) simp
        then show ?thesis using lt by (simp add: float_exponent_def)
      qed
      with \<open>float_exponent a b \<le> 0\<close> have s53: "s \<le> - 53" using s(2) by (simp add: s_def)
      then have "53 \<le> nat (- s)" by simp
      then have "(2::int) ^ 53 \<le> 2 ^ nat (- s)" by (intro power_increasing) simp_all
      with a lt have "round_half_even (a * 2 ^ nat (- s)) b div 2 ^ nat (- s) = 0"
        by (intro small_quotient_round) simp_all
      then show ?thesis using s53 lt a
        by (simp add: fq float_overflows_def floor_float_def)
    qed
  qed
  then show ?thesis using a by (simp add: floor_truediv_def Let_def)
qed

subsection \<open>Sequence derivation\<close>

text \<open>
  Below \<open>2 ^ 53\<close> the float quotient is floored exactly: with a time \<open>t\<close>,
  \<open>0 \<le> t < 2 ^ 53\<close>, a duration \<open>d > 0\<close> and no start number of 1000 or more, the
  media sequence is \<open>t div d\<close>, reduced modulo 100000 when the manifest is live and the
  quotient is above 100000. The two examples of the specification are of that kind.
\<close>

lemma sequence_below_2_53:
  assumes "time fs = Some t" and "duration_mpd_timescale fs = Some d" and "0 < d"
    and "\<forall>n. segment_template_start_number p = Some n \<longrightarrow> n < 1000"
    and "0 \<le> t" and "t < 2 ^ 53"
  shows "sequence mpd p fs
         = Inr (if isLive mpd = Some True \<and> 100000 < t div d then (t div d) mod 100000
                else t div d)"
proof -
  have st: "sequence mpd p fs = sequence_by_time mpd fs"
    using assms(4) by (auto simp add: sequence_def split: option.splits)
  have fl: "floor_truediv t d = Inr (t div d)"
    using assms(5,6,3) by (rule floor_truediv_exact)
  show ?thesis
    unfolding st using assms(1,2,3) fl
    by (auto simp add: sequence_by_time_def split: option.splits)
qed

lemma sequence_examples:
  "sequence \<lparr>isLive = Some False, profiles = None\<rparr>
     \<lparr>id_p = Some ''v1'', mimeType = Some ''video/mp4'', lang = None, bandwidth = None,
      width = None, height = None, codecs = None, frameRate = None, initUrl = None,
      segments = None, segment_template_start_number = None\<rparr>
     \<lparr>extinf = Some 1, media = None, number = Some 7, time = Some 20000000,
      duration_mpd_timescale = Some 1000000\<rparr> = Inr 20
   \<and> sequence \<lparr>isLive = Some True, profiles = None\<rparr>
     \<lparr>id_p = Some ''v1'', mimeType = Some ''video/mp4'', lang = None, bandwidth = None,
      width = None, height = None, codecs = None, frameRate = None, initUrl = None,
      segments = None, segment_template_start_number = Some 1\<rparr>
     \<lparr>extinf = Some 1, media = None, number = None, time = Some 300000,
      duration_mpd_timescale = Some 2\<rparr> = Inr 50000"
  using sequence_below_2_53
          [of "\<lparr>extinf = Some 1, media = None, number = Some 7, time = Some 20000000,
                duration_mpd_timescale = Some 1000000\<rparr>" 20000000 1000000
              "\<lparr>id_p = Some ''v1'', mimeType = Some ''video/mp4'', lang = None, bandwidth = None,
                width = None, height = None, codecs = None, frameRate = None, initUrl = None,
                segments = None, segment_template_start_number = None\<rparr>"
              "\<lparr>isLive = Some False, profiles = None\<rparr>"]
        sequence_below_2_53
          [of "\<lparr>extinf = Some 1, media = None, number = None, time = Some 300000,
                duration_mpd_timescale = Some 2\<rparr>" 300000 2
              "\<lparr>id_p = Some ''v1'', mimeType = Some ''video/mp4'', lang = None, bandwidth = None,
                width = None, height = None, codecs = None, frameRate = None, initUrl = None,
                segments = None, segment_template_start_number = Some 1\<rparr>"
              "\<lparr>isLive = Some True, profiles = None\<rparr>"]
  by simp

text \<open>
  Claim C3 fails on the code. \<open>math.floor(time_val / duration_val)\<close> floors the float
  quotient, which is the exact quotient rounded to 53 bits, and from \<open>2 ^ 53\<close> on the
  rounding can reach the next integer: a time of 16999999999999999 in a timescale of
  10000000 (a clock of 10 MHz counting from 1970) gives the sequence 1700000000, and the
  floor of the quotient is 1699999999.
\<close>

theorem sequence_from_time_rounded:
  "sequence \<lparr>isLive = Some False, profiles = None\<rparr>
     \<lparr>id_p = Some ''v1'', mimeType = Some ''video/mp4'', lang = None, bandwidth = None,
      width = None, height = None, codecs = None, frameRate = None, initUrl = None,
      segments = None, segment_template_start_number = None\<rparr>
     \<lparr>extinf = Some 1, media = None, number = None, time = Some 16999999999999999,
      duration_mpd_timescale = Some 10000000\<rparr>
   = Inr 1700000000
   \<and> (16999999999999999 :: int) div 10000000 = 1699999999"
  by (simp add: sequence_def sequence_by_time_def floor_truediv_def float_quotient_def
        float_exponent_def float_overflows_def floor_float_def round_half_even_def
        bit_length.simps Let_def)

text \<open>
  Claim C4. With a start number \<open>n \<ge> 1000\<close> the media sequence is the first segment's
  number, or \<open>n\<close> when it has none. With no such start number and the first segment's
  time or duration absent, it is the first segment's number, or 1 when it has none.
\<close>

theorem sequence_from_number:
  "(segment_template_start_number p = Some n \<and> 1000 \<le> n \<longrightarrow>
      sequence mpd p fs = Inr (case number fs of Some k \<Rightarrow> k | None \<Rightarrow> n))
   \<and> ((\<forall>n. segment_template_start_number p = Some n \<longrightarrow> n < 1000)
        \<and> (time fs = None \<or> duration_mpd_timescale fs = None) \<longrightarrow>
      sequence mpd p fs = Inr (case number fs of Some k \<Rightarrow> k | None \<Rightarrow> 1))"
  by (auto simp add: sequence_def sequence_by_time_def number_or_def split: option.splits)

theorem sequence_from_number_witness:
  "sequence \<lparr>isLive = Some True, profiles = None\<rparr>
     \<lparr>id_p = Some ''v1'', mimeType = Some ''video/mp4'', lang = None, bandwidth = None,
      width = None, height = None, codecs = None, frameRate = None, initUrl = None,
      segments = None, segment_template_start_number = Some 1000\<rparr>
     \<lparr>extinf = Some 1, media = None, number = None, time = Some 20000000,
      duration_mpd_timescale = Some 1000000\<rparr> = Inr 1000
   \<and> sequence \<lparr>isLive = Some True, profiles = None\<rparr>
     \<lparr>id_p = Some ''v1'', mimeType = Some ''video/mp4'', lang = None, bandwidth = None,
      width = None, height = None, codecs = None, frameRate = None, initUrl = None,
      segments = None, segment_template_start_number = Some 999\<rparr>
     \<lparr>extinf = Some 1, media = None, number = Some 42, time = Some 20000000,
      duration_mpd_timescale = None\<rparr> = Inr 42"
  using sequence_from_number
          [of "\<lparr>id_p = Some ''v1'', mimeType = Some ''video/mp4'', lang = None, bandwidth = None,
                width = None, height = None, codecs = None, frameRate = None, initUrl = None,
                segments = None, segment_template_start_number = Some 1000\<rparr>" 1000
              "\<lparr>isLive = Some True, profiles = None\<rparr>"
              "\<lparr>extinf = Some 1, media = None, number = None, time = Some 20000000,
                duration_mpd_timescale = Some 1000000\<rparr>"]
        sequence_from_number
          [of "\<lparr>id_p = Some ''v1'', mimeType = Some ''video/mp4'', lang = None, bandwidth = None,
                width = None, height = None, codecs = None, frameRate = None, initUrl = None,
                segments = None, segment_template_start_number = Some 999\<rparr>" 0
              "\<lparr>isLive = Some True, profiles = None\<rparr>"
              "\<lparr>extinf = Some 1, media = None, number = Some 42, time = Some 20000000,
                duration_mpd_timescale = None\<rparr>"]
  by simp

subsection \<open>The two dicts of \<open>build_hls\<close>\<close>

lemma update_fresh: "k \<notin> fst ` set al \<Longrightarrow> AList.update k v al = al @ [(k, v)]"
  by (induction al) auto

lemma set_update_subset: "set (AList.update k v al) \<subseteq> insert (k, v) (set al)"
  by (induction al) auto

lemma classify_profile_cases:
  assumes "classify_profile enc u he kid k p st = Inr st'"
  shows "\<exists>pid qp. id_p p = Some pid \<and> mimeType p \<noteq> None
    \<and> video_profiles st' = (if is_video p then AList.update pid (p, enc u qp he) (video_profiles st)
                           else video_profiles st)
    \<and> audio_profiles st' = (if is_audio p then AList.update pid (p, enc u qp he) (audio_profiles st)
                           else audio_profiles st)"
proof -
  from assms obtain pid where pid: "id_p p = Some pid"
    by (auto simp add: classify_profile_def subscript_def split: option.splits)
  from assms pid obtain mt where mt: "mimeType p = Some mt"
    by (auto simp add: classify_profile_def subscript_def Let_def split: option.splits)
  define qp where "qp = AList.update ''key'' (or_empty k)
                   (AList.update ''key_id'' (or_empty kid)
                     (AList.update ''profile_id'' pid (c_params st)))"
  have "video_profiles st' = (if is_video p then AList.update pid (p, enc u qp he) (video_profiles st)
                           else video_profiles st)
    \<and> audio_profiles st' = (if is_audio p then AList.update pid (p, enc u qp he) (audio_profiles st)
                           else audio_profiles st)"
    using assms pid mt
    by (auto simp add: classify_profile_def subscript_def is_video_def is_audio_def Let_def qp_def
        split: if_splits)
  with pid mt show ?thesis by blast
qed

text \<open>With fresh, distinct ids the two dicts grow by the classified profiles, in order.\<close>

lemma classify_profiles_distinct:
  assumes "classify_profiles enc u he kid k ps st = Inr st'"
    and "distinct (map id_p ps)"
    and "\<forall>p \<in> set ps. \<forall>pid. id_p p = Some pid \<longrightarrow>
           pid \<notin> fst ` set (video_profiles st) \<and> pid \<notin> fst ` set (audio_profiles st)"
  shows "map (fst \<circ> snd) (video_profiles st') = map (fst \<circ> snd) (video_profiles st) @ filter is_video ps
       \<and> map (fst \<circ> snd) (audio_profiles st') = map (fst \<circ> snd) (audio_profiles st) @ filter is_audio ps"
  using assms
proof (induction ps arbitrary: st)
  case Nil
  then show ?case by simp
next
  case (Cons p ps)
  from Cons.prems(1) obtain st1 where
    st1: "classify_profile enc u he kid k p st = Inr st1"
    and rest: "classify_profiles enc u he kid k ps st1 = Inr st'"
    by (auto split: sum.splits)
  from classify_profile_cases[OF st1] obtain pid url where pid: "id_p p = Some pid"
    and v1: "video_profiles st1 = (if is_video p then AList.update pid (p, url) (video_profiles st)
                           else video_profiles st)"
    and a1: "audio_profiles st1 = (if is_audio p then AList.update pid (p, url) (audio_profiles st)
                           else audio_profiles st)"
    by blast
  from Cons.prems(3) pid have fresh: "pid \<notin> fst ` set (video_profiles st)"
    "pid \<notin> fst ` set (audio_profiles st)" by auto
  have v1': "video_profiles st1 = video_profiles st @ (if is_video p then [(pid, (p, url))] else [])"
    using v1 fresh by (simp add: update_fresh)
  have a1': "audio_profiles st1 = audio_profiles st @ (if is_audio p then [(pid, (p, url))] else [])"
    using a1 fresh by (simp add: update_fresh)
  have fresh1: "\<forall>q \<in> set ps. \<forall>i. id_p q = Some i \<longrightarrow>
           i \<notin> fst ` set (video_profiles st1) \<and> i \<notin> fst ` set (audio_profiles st1)"
  proof (intro ballI allI impI)
    fix q i assume q: "q \<in> set ps" and i: "id_p q = Some i"
    from Cons.prems(2) have "id_p p \<notin> id_p ` set ps" by simp
    with q have "id_p q \<noteq> id_p p" by (metis image_eqI)
    with i pid have "i \<noteq> pid" by auto
    moreover from Cons.prems(3) q i have "i \<notin> fst ` set (video_profiles st)"
      "i \<notin> fst ` set (audio_profiles st)" by auto
    ultimately show "i \<notin> fst ` set (video_profiles st1) \<and> i \<notin> fst ` set (audio_profiles st1)"
      by (auto simp add: v1' a1')
  qed
  from Cons.prems(2) have "distinct (map id_p ps)" by simp
  from Cons.IH[OF rest this fresh1] show ?case
    by (simp add: v1' a1')
qed

text \<open>Every URL stored in the two dicts comes from the encoder, at the endpoint.\<close>

lemma classify_profiles_urls:
  assumes "classify_profiles enc u he kid k ps st = Inr st'"
    and "\<forall>e \<in> set (video_profiles st) \<union> set (audio_profiles st). P (snd (snd e))"
    and "\<forall>qp. P (enc u qp he)"
  shows "\<forall>e \<in> set (video_profiles st') \<union> set (audio_profiles st'). P (snd (snd e))"
  using assms(1,2)
proof (induction ps arbitrary: st)
  case Nil
  then show ?case by simp
next
  case (Cons p ps)
  from Cons.prems(1) obtain st1 where
    st1: "classify_profile enc u he kid k p st = Inr st1"
    and rest: "classify_profiles enc u he kid k ps st1 = Inr st'"
    by (auto split: sum.splits)
  from classify_profile_cases[OF st1] obtain pid qp where 
        v1: "video_profiles st1 = (if is_video p then AList.update pid (p, enc u qp he) (video_profiles st)
                           else video_profiles st)"
    and a1: "audio_profiles st1 = (if is_audio p then AList.update pid (p, enc u qp he) (audio_profiles st)
                           else audio_profiles st)"
    by blast
  have "\<forall>e \<in> set (video_profiles st1) \<union> set (audio_profiles st1). P (snd (snd e))"
  proof
    fix e assume "e \<in> set (video_profiles st1) \<union> set (audio_profiles st1)"
    then have "e = (pid, (p, enc u qp he)) \<or> e \<in> set (video_profiles st) \<union> set (audio_profiles st)"
      using set_update_subset[of pid "(p, enc u qp he)" "video_profiles st"]
            set_update_subset[of pid "(p, enc u qp he)" "audio_profiles st"]
      by (auto simp add: v1 a1 split: if_splits)
    then show "P (snd (snd e))" using Cons.prems(2) assms(3) by auto
  qed
  from Cons.IH[OF rest this] show ?case .
qed

text \<open>Every profile stored has an id, and was classified as its dict says.\<close>

lemma classify_profiles_members:
  assumes "classify_profiles enc u he kid k ps st = Inr st'"
    and "\<forall>e \<in> set (video_profiles st). id_p (fst (snd e)) \<noteq> None \<and> is_video (fst (snd e))"
    and "\<forall>e \<in> set (audio_profiles st). id_p (fst (snd e)) \<noteq> None \<and> is_audio (fst (snd e))"
  shows "(\<forall>e \<in> set (video_profiles st'). id_p (fst (snd e)) \<noteq> None \<and> is_video (fst (snd e)))
       \<and> (\<forall>e \<in> set (audio_profiles st'). id_p (fst (snd e)) \<noteq> None \<and> is_audio (fst (snd e)))"
  using assms
proof (induction ps arbitrary: st)
  case Nil
  then show ?case by simp
next
  case (Cons p ps)
  from Cons.prems(1) obtain st1 where
    st1: "classify_profile enc u he kid k p st = Inr st1"
    and rest: "classify_profiles enc u he kid k ps st1 = Inr st'"
    by (auto split: sum.splits)
  from classify_profile_cases[OF st1] obtain pid url where pid: "id_p p = Some pid"
    and v1: "video_profiles st1 = (if is_video p then AList.update pid (p, url) (video_profiles st)
                           else video_profiles st)"
    and a1: "audio_profiles st1 = (if is_audio p then AList.update pid (p, url) (audio_profiles st)
                           else audio_profiles st)"
    by blast
  have v: "\<forall>e \<in> set (video_profiles st1). id_p (fst (snd e)) \<noteq> None \<and> is_video (fst (snd e))"
    using Cons.prems(2) pid set_update_subset[of pid "(p, url)" "video_profiles st"]
    by (auto simp add: v1 split: if_splits)
  have a: "\<forall>e \<in> set (audio_profiles st1). id_p (fst (snd e)) \<noteq> None \<and> is_audio (fst (snd e))"
    using Cons.prems(3) pid set_update_subset[of pid "(p, url)" "audio_profiles st"]
    by (auto simp add: a1 split: if_splits)
  from Cons.IH[OF rest v a] show ?case .
qed

lemma classify_profiles_succeeds:
  assumes "\<forall>p \<in> set ps. id_p p \<noteq> None \<and> mimeType p \<noteq> None"
  shows "\<exists>st'. classify_profiles enc u he kid k ps st = Inr st'"
  using assms
proof (induction ps arbitrary: st)
  case Nil
  then show ?case by simp
next
  case (Cons p ps)
  then obtain pid mt where "id_p p = Some pid" "mimeType p = Some mt" by auto
  then have "\<exists>st1. classify_profile enc u he kid k p st = Inr st1"
    by (simp add: classify_profile_def subscript_def Let_def)
  then obtain st1 where "classify_profile enc u he kid k p st = Inr st1" ..
  moreover from Cons obtain st' where "classify_profiles enc u he kid k ps st1 = Inr st'"
    by fastforce
  ultimately show ?case by simp
qed

lemma audio_line_prefix:
  "audio_line f p u = Inr l \<Longrightarrow> prefix ''#EXT-X-MEDIA:'' l"
  by (auto simp add: audio_line_def subscript_def Let_def split: option.splits)

lemma audio_line_succeeds: "id_p p \<noteq> None \<Longrightarrow> \<exists>l. audio_line f p u = Inr l"
  by (auto simp add: audio_line_def subscript_def Let_def split: option.splits)

lemma stream_inf_line_prefix:
  "stream_inf_line ha p = Inr l \<Longrightarrow> \<not> prefix ''#EXT-X-MEDIA:'' l"
  by (auto simp add: stream_inf_line_def subscript_def Let_def split: option.splits)

lemma stream_inf_line_succeeds:
  "stream_inf_fields p \<Longrightarrow> \<exists>l. stream_inf_line ha p = Inr l"
  by (auto simp add: stream_inf_line_def stream_inf_fields_def subscript_def Let_def)

lemma stream_inf_line_fails:
  "\<not> stream_inf_fields p \<Longrightarrow>
   \<exists>f \<in> {''bandwidth'', ''width'', ''height'', ''codecs'', ''frameRate''}.
     stream_inf_line ha p = Inl (KeyError f)"
  by (auto simp add: stream_inf_line_def stream_inf_fields_def subscript_def Let_def
      split: option.splits)

lemma not_hash_not_media: "\<not> prefix ''#'' u \<Longrightarrow> \<not> prefix ''#EXT-X-MEDIA:'' u"
  by (auto simp add: prefix_def)

text \<open>The audio loop appends one line per entry, the first one being the default.\<close>

lemma audio_lines_shape:
  assumes "audio_lines i vs hls0 = Inr out"
  shows "\<exists>ls. out = hls0 @ ls \<and> length ls = length vs
          \<and> (\<forall>j < length vs. audio_line (i + j = 0) (fst (vs ! j)) (snd (vs ! j)) = Inr (ls ! j))"
  using assms
proof (induction vs arbitrary: i hls0)
  case Nil
  then show ?case by simp
next
  case (Cons v vs)
  obtain p u where v: "v = (p, u)" by (cases v)
  from Cons.prems v obtain l where l: "audio_line (i = 0) p u = Inr l"
    and rest: "audio_lines (Suc i) vs (hls0 @ [l]) = Inr out"
    by (auto split: sum.splits)
  from Cons.IH[OF rest] obtain ls where ls: "out = (hls0 @ [l]) @ ls" "length ls = length vs"
    "\<forall>j < length vs. audio_line (Suc i + j = 0) (fst (vs ! j)) (snd (vs ! j)) = Inr (ls ! j)"
    by blast
  have "\<forall>j < length (v # vs).
          audio_line (i + j = 0) (fst ((v # vs) ! j)) (snd ((v # vs) ! j)) = Inr ((l # ls) ! j)"
  proof (intro allI impI)
    fix j assume "j < length (v # vs)"
    then show "audio_line (i + j = 0) (fst ((v # vs) ! j)) (snd ((v # vs) ! j)) = Inr ((l # ls) ! j)"
      using l ls(3) v by (cases j) auto
  qed
  with ls(1,2) show ?case by (intro exI[of _ "l # ls"]) simp
qed

lemma audio_lines_succeeds:
  assumes "\<forall>v \<in> set vs. id_p (fst v) \<noteq> None"
  shows "\<exists>out. audio_lines i vs hls0 = Inr out"
  using assms
proof (induction vs arbitrary: i hls0)
  case Nil
  then show ?case by simp
next
  case (Cons v vs)
  obtain p u where v: "v = (p, u)" by (cases v)
  with Cons.prems have "id_p p \<noteq> None" by simp
  then obtain l where "audio_line (i = 0) p u = Inr l" using audio_line_succeeds by blast
  moreover from Cons obtain out where "audio_lines (Suc i) vs (hls0 @ [l]) = Inr out"
    by fastforce
  ultimately show ?case using v by simp
qed

text \<open>The video loop appends a line and a URL per entry, or stops at a missing field.\<close>

lemma video_lines_shape:
  assumes "video_lines ha vs hls0 = Inr out"
  shows "\<exists>ls. out = hls0 @ ls
          \<and> (\<forall>l \<in> set ls. (\<exists>v \<in> set vs. stream_inf_line ha (fst v) = Inr l \<or> l = snd v))
          \<and> (\<forall>v \<in> set vs. \<exists>l \<in> set ls. stream_inf_line ha (fst v) = Inr l)"
  using assms
proof (induction vs arbitrary: hls0)
  case Nil
  then show ?case by simp
next
  case (Cons v vs)
  obtain p u where v: "v = (p, u)" by (cases v)
  from Cons.prems v obtain l where l: "stream_inf_line ha p = Inr l"
    and rest: "video_lines ha vs (hls0 @ [l, u]) = Inr out"
    by (auto split: sum.splits)
  from Cons.IH[OF rest] obtain ls where ls: "out = (hls0 @ [l, u]) @ ls"
    "\<forall>l \<in> set ls. (\<exists>v \<in> set vs. stream_inf_line ha (fst v) = Inr l \<or> l = snd v)"
    "\<forall>v \<in> set vs. \<exists>l \<in> set ls. stream_inf_line ha (fst v) = Inr l"
    by blast
  show ?case
    using ls l v by (intro exI[of _ "l # u # ls"]) auto
qed

lemma video_lines_succeeds:
  assumes "\<forall>v \<in> set vs. stream_inf_fields (fst v)"
  shows "\<exists>out. video_lines ha vs hls0 = Inr out"
  using assms
proof (induction vs arbitrary: hls0)
  case Nil
  then show ?case by simp
next
  case (Cons v vs)
  obtain p u where v: "v = (p, u)" by (cases v)
  with Cons.prems have "stream_inf_fields p" by simp
  then obtain l where "stream_inf_line ha p = Inr l" using stream_inf_line_succeeds by blast
  moreover from Cons obtain out where "video_lines ha vs (hls0 @ [l, u]) = Inr out"
    by fastforce
  ultimately show ?case using v by simp
qed

lemma video_lines_fails:
  assumes "\<exists>v \<in> set vs. \<not> stream_inf_fields (fst v)"
  shows "\<exists>f \<in> {''bandwidth'', ''width'', ''height'', ''codecs'', ''frameRate''}.
           video_lines ha vs hls0 = Inl (KeyError f)"
  using assms
proof (induction vs arbitrary: hls0)
  case Nil
  then show ?case by simp
next
  case (Cons v vs)
  obtain p u where v: "v = (p, u)" by (cases v)
  show ?case
  proof (cases "stream_inf_fields p")
    case False
    from stream_inf_line_fails[OF this, of ha] show ?thesis using v by auto
  next
    case True
    then obtain l where l: "stream_inf_line ha p = Inr l" using stream_inf_line_succeeds by blast
    from True Cons.prems v have "\<exists>v \<in> set vs. \<not> stream_inf_fields (fst v)" by auto
    from Cons.IH[OF this, of "hls0 @ [l, u]"] show ?thesis using l v by simp
  qed
qed

lemma classify_distinct:
  assumes "classify enc mpd req kid k = Inr st" and "profiles mpd = Some ps"
    and "distinct (map id_p ps)"
  shows "map (fst \<circ> snd) (video_profiles st) = filter is_video ps"
    and "map (fst \<circ> snd) (audio_profiles st) = filter is_audio ps"
proof -
  from assms(1,2) have
    "classify_profiles enc (playlist_endpoint req) (has_encrypted_of (query_params req)) kid k ps
       \<lparr>c_params = AList.delete ''has_encrypted'' (query_params req), video_profiles = [],
        audio_profiles = []\<rparr> = Inr st"
    by (simp add: classify_def subscript_def Let_def)
  from classify_profiles_distinct[OF this assms(3)]
  show "map (fst \<circ> snd) (video_profiles st) = filter is_video ps"
    and "map (fst \<circ> snd) (audio_profiles st) = filter is_audio ps"
    by simp_all
qed

lemma classify_urls:
  assumes "classify enc mpd req kid k = Inr st"
    and "\<forall>qp e. P (enc (playlist_endpoint req) qp e)"
  shows "\<forall>e \<in> set (video_profiles st) \<union> set (audio_profiles st). P (snd (snd e))"
proof -
  from assms(1) obtain ps where
    "classify_profiles enc (playlist_endpoint req) (has_encrypted_of (query_params req)) kid k ps
       \<lparr>c_params = AList.delete ''has_encrypted'' (query_params req), video_profiles = [],
        audio_profiles = []\<rparr> = Inr st"
    by (auto simp add: classify_def subscript_def Let_def split: option.splits)
  from classify_profiles_urls[OF this, of P] assms(2) show ?thesis by simp
qed

lemma classify_members:
  assumes "classify enc mpd req kid k = Inr st"
  shows "\<forall>e \<in> set (video_profiles st). id_p (fst (snd e)) \<noteq> None \<and> is_video (fst (snd e))"
    and "\<forall>e \<in> set (audio_profiles st). id_p (fst (snd e)) \<noteq> None \<and> is_audio (fst (snd e))"
proof -
  from assms(1) obtain ps where
    "classify_profiles enc (playlist_endpoint req) (has_encrypted_of (query_params req)) kid k ps
       \<lparr>c_params = AList.delete ''has_encrypted'' (query_params req), video_profiles = [],
        audio_profiles = []\<rparr> = Inr st"
    by (auto simp add: classify_def subscript_def Let_def split: option.splits)
  from classify_profiles_members[OF this]
  show "\<forall>e \<in> set (video_profiles st). id_p (fst (snd e)) \<noteq> None \<and> is_video (fst (snd e))"
    and "\<forall>e \<in> set (audio_profiles st). id_p (fst (snd e)) \<noteq> None \<and> is_audio (fst (snd e))"
    by simp_all
qed

lemma classify_succeeds:
  assumes "profiles mpd = Some ps" and "\<forall>p \<in> set ps. id_p p \<noteq> None \<and> mimeType p \<noteq> None"
  shows "\<exists>st. classify enc mpd req kid k = Inr st"
  using classify_profiles_succeeds[OF assms(2)] assms(1)
  by (simp add: classify_def subscript_def Let_def)

lemma build_hls_lines_parts:
  assumes "build_hls_lines enc mpd req kid k = Inr ls"
  obtains st hls1 where "classify enc mpd req kid k = Inr st"
    and "audio_lines 0 (map snd (audio_profiles st)) [''#EXTM3U'', ''#EXT-X-VERSION:6''] = Inr hls1"
    and "video_lines (audio_profiles st \<noteq> []) (map snd (video_profiles st)) hls1 = Inr ls"
  using assms by (auto simp add: build_hls_lines_def split: sum.splits)

lemma audio_line_text:
  assumes "audio_line f p u = Inr l"
  shows \<open>\<exists>pid. id_p p = Some pid \<and>
       l = ''#EXT-X-MEDIA:TYPE=AUDIO,GROUP-ID="audio",NAME="'' @ pid
           @ ''",DEFAULT='' @ (if f then ''YES'' else ''NO'')
           @ '',AUTOSELECT='' @ (if f then ''YES'' else ''NO'')
           @ '',LANGUAGE="'' @ (case lang p of None \<Rightarrow> ''und'' | Some l \<Rightarrow> l)
           @ ''",URI="'' @ u @ ''"''\<close>
  using assms by (auto simp add: audio_line_def subscript_def Let_def split: option.splits)

subsection \<open>Evaluating the builders on the sample manifest\<close>

lemmas eval_defs =
  build_hls_def build_hls_lines_def classify_def classify_profile_def audio_line_def
  stream_inf_line_def subscript_def has_encrypted_of_def lower_def lower_char_def or_empty_def
  truthy_def str_int_def str_nat.simps digit_char_def Let_def
  sample_encode_def sample_request_def sample_video_def sample_audio_def sample_mpd_def
  sample_segment_def

lemmas eval_playlist_defs =
  build_hls_playlist_def build_hls_playlist_state_def playlist_profile_def playlist_header_def
  sequence_def
  sequence_by_time_def number_or_def target_duration_def ceil_float_def fmt_3f_def
  round_half_even_def pad3_def List.map_filter_def

subsection \<open>The master playlist\<close>

text \<open>
  Claim C6 as it is stated fails: with a second video profile that has no bandwidth,
  \<open>build_hls\<close> raises \<open>KeyError\<close> and returns no playlist, although the first profile
  is well formed.
\<close>

theorem build_hls_missing_field_counterexample:
  "build_hls sample_encode
     (sample_mpd [sample_video, sample_video\<lparr>id_p := Some ''v2'', bandwidth := None\<rparr>])
     sample_request None None
   = Inl (KeyError ''bandwidth'')"
  by (simp add: eval_defs)

text \<open>
  Claim C6, amended. In a manifest whose profiles have distinct ids, and an id and a
  mime type each, a video profile without one of the five fields of its
  \<open>#EXT-X-STREAM-INF\<close> line makes \<open>build_hls\<close> fail with a \<open>KeyError\<close> on such a
  field; when every video profile has the five fields, \<open>build_hls\<close> returns a playlist.
\<close>

theorem build_hls_missing_field:
  assumes "profiles mpd = Some ps" and "distinct (map id_p ps)"
    and "\<forall>p \<in> set ps. id_p p \<noteq> None \<and> mimeType p \<noteq> None"
  shows "((\<exists>p \<in> set ps. is_video p \<and> \<not> stream_inf_fields p) \<longrightarrow>
            (\<exists>f \<in> {''bandwidth'', ''width'', ''height'', ''codecs'', ''frameRate''}.
               build_hls enc mpd req key_id key = Inl (KeyError f)))
       \<and> ((\<forall>p \<in> set ps. is_video p \<longrightarrow> stream_inf_fields p) \<longrightarrow>
            (\<exists>text. build_hls enc mpd req key_id key = Inr text))"
proof -
  from classify_succeeds[OF assms(1,3)] obtain st where
    st: "classify enc mpd req key_id key = Inr st" by blast
  from classify_members(2)[OF st] have "\<forall>v \<in> set (map snd (audio_profiles st)). id_p (fst v) \<noteq> None"
    by auto
  from audio_lines_succeeds[OF this] obtain hls1 where
    hls1: "audio_lines 0 (map snd (audio_profiles st)) [''#EXTM3U'', ''#EXT-X-VERSION:6''] = Inr hls1"
    by blast
  have vs: "fst ` set (map snd (video_profiles st)) = {p \<in> set ps. is_video p}"
  proof -
    have "fst ` set (map snd (video_profiles st)) = set (map (fst \<circ> snd) (video_profiles st))"
      by (simp add: image_image)
    also have "\<dots> = set (filter is_video ps)"
      using classify_distinct(1)[OF st assms(1,2)] by simp
    finally show ?thesis by simp
  qed
  have lines: "build_hls_lines enc mpd req key_id key
     = video_lines (audio_profiles st \<noteq> []) (map snd (video_profiles st)) hls1"
    by (simp add: build_hls_lines_def st hls1)
  show ?thesis
  proof (intro conjI impI)
    assume "\<exists>p \<in> set ps. is_video p \<and> \<not> stream_inf_fields p"
    then obtain p where "p \<in> fst ` set (map snd (video_profiles st))" "\<not> stream_inf_fields p"
      using vs by auto
    then have "\<exists>v \<in> set (map snd (video_profiles st)). \<not> stream_inf_fields (fst v)" by force
    from video_lines_fails[OF this, of "audio_profiles st \<noteq> []" hls1]
    show "\<exists>f \<in> {''bandwidth'', ''width'', ''height'', ''codecs'', ''frameRate''}.
               build_hls enc mpd req key_id key = Inl (KeyError f)"
      unfolding build_hls_def lines by auto
  next
    assume "\<forall>p \<in> set ps. is_video p \<longrightarrow> stream_inf_fields p"
    with vs have "\<forall>v \<in> set (map snd (video_profiles st)). stream_inf_fields (fst v)" by blast
    from video_lines_succeeds[OF this, of "audio_profiles st \<noteq> []" hls1]
    show "\<exists>text. build_hls enc mpd req key_id key = Inr text"
      unfolding build_hls_def lines by auto
  qed
qed

theorem build_hls_missing_field_witness:
  "(\<exists>f \<in> {''bandwidth'', ''width'', ''height'', ''codecs'', ''frameRate''}.
      build_hls sample_encode
        (sample_mpd [sample_video, sample_video\<lparr>id_p := Some ''v2'', bandwidth := None\<rparr>])
        sample_request None None = Inl (KeyError f))
   \<and> (\<exists>text. build_hls sample_encode
        (sample_mpd [sample_video, sample_audio ''a1'' (Some ''en'')])
        sample_request None None = Inr text)"
proof -
  let ?bad = "[sample_video, sample_video\<lparr>id_p := Some ''v2'', bandwidth := None\<rparr>]"
  let ?good = "[sample_video, sample_audio ''a1'' (Some ''en'')]"
  have b1: "profiles (sample_mpd ?bad) = Some ?bad" by (simp add: sample_mpd_def)
  have b2: "distinct (map id_p ?bad)" by (simp add: sample_video_def)
  have b3: "\<forall>p \<in> set ?bad. id_p p \<noteq> None \<and> mimeType p \<noteq> None" by (simp add: sample_video_def)
  have b4: "\<exists>p \<in> set ?bad. is_video p \<and> \<not> stream_inf_fields p"
    by (simp add: sample_video_def is_video_def stream_inf_fields_def)
  have g1: "profiles (sample_mpd ?good) = Some ?good" by (simp add: sample_mpd_def)
  have g2: "distinct (map id_p ?good)" by (simp add: sample_video_def sample_audio_def)
  have g3: "\<forall>p \<in> set ?good. id_p p \<noteq> None \<and> mimeType p \<noteq> None"
    by (simp add: sample_video_def sample_audio_def)
  have g4: "\<forall>p \<in> set ?good. is_video p \<longrightarrow> stream_inf_fields p"
    by (simp add: sample_video_def sample_audio_def is_video_def stream_inf_fields_def)
  from build_hls_missing_field[OF b1 b2 b3, of sample_encode sample_request None None] b4
       build_hls_missing_field[OF g1 g2 g3, of sample_encode sample_request None None] g4
  show ?thesis by blast
qed

text \<open>
  The lines that start with \<open>#EXT-X-MEDIA:\<close> in the list \<open>build_hls\<close> joins, and the
  dict a profile with both \<open>video\<close> and \<open>audio\<close> in its mime type is stored in.
\<close>

lemma media_lines_of_list:
  assumes "profiles mpd = Some ps" and "distinct (map id_p ps)"
    and "build_hls_lines enc mpd req key_id key = Inr ls"
    and "\<forall>qp e. \<not> prefix ''#'' (enc (playlist_endpoint req) qp e)"
  shows \<open>length (filter (prefix ''#EXT-X-MEDIA:'') ls) = length (filter is_audio ps)
       \<and> (\<forall>i < length (filter is_audio ps). \<exists>pid u.
            id_p (filter is_audio ps ! i) = Some pid \<and>
            filter (prefix ''#EXT-X-MEDIA:'') ls ! i =
              ''#EXT-X-MEDIA:TYPE=AUDIO,GROUP-ID="audio",NAME="'' @ pid
              @ ''",DEFAULT='' @ (if i = 0 then ''YES'' else ''NO'')
              @ '',AUTOSELECT='' @ (if i = 0 then ''YES'' else ''NO'')
              @ '',LANGUAGE="''
              @ (case lang (filter is_audio ps ! i) of None \<Rightarrow> ''und'' | Some l \<Rightarrow> l)
              @ ''",URI="'' @ u @ ''"'')\<close>
proof -
  from assms(3) obtain st hls1 where st: "classify enc mpd req key_id key = Inr st"
    and a: "audio_lines 0 (map snd (audio_profiles st)) [''#EXTM3U'', ''#EXT-X-VERSION:6''] = Inr hls1"
    and v: "video_lines (audio_profiles st \<noteq> []) (map snd (video_profiles st)) hls1 = Inr ls"
    by (rule build_hls_lines_parts)
  define avs where "avs = map snd (audio_profiles st)"
  have au: "map fst avs = filter is_audio ps"
    using classify_distinct(2)[OF st assms(1,2)] by (simp add: avs_def)
  then have len: "length avs = length (filter is_audio ps)" by (metis length_map)
  from audio_lines_shape[OF a] obtain als where als: "hls1 = [''#EXTM3U'', ''#EXT-X-VERSION:6''] @ als"
    "length als = length avs"
    "\<forall>j < length avs. audio_line (j = 0) (fst (avs ! j)) (snd (avs ! j)) = Inr (als ! j)"
    by (auto simp add: avs_def)
  from video_lines_shape[OF v] obtain vls where vls: "ls = hls1 @ vls"
    "\<forall>l \<in> set vls. (\<exists>v \<in> set (map snd (video_profiles st)).
        stream_inf_line (audio_profiles st \<noteq> []) (fst v) = Inr l \<or> l = snd v)"
    by blast
  have urls: "\<forall>e \<in> set (video_profiles st) \<union> set (audio_profiles st). \<not> prefix ''#'' (snd (snd e))"
    using classify_urls[OF st, of "\<lambda>u. \<not> prefix ''#'' u"] assms(4) by simp
  have fv: "filter (prefix ''#EXT-X-MEDIA:'') vls = []"
  proof -
    have "\<forall>l \<in> set vls. \<not> prefix ''#EXT-X-MEDIA:'' l"
    proof
      fix l assume "l \<in> set vls"
      with vls(2) obtain v where vv: "v \<in> set (map snd (video_profiles st))"
        and l: "stream_inf_line (audio_profiles st \<noteq> []) (fst v) = Inr l \<or> l = snd v"
        by blast
      from l show "\<not> prefix ''#EXT-X-MEDIA:'' l"
      proof
        assume "stream_inf_line (audio_profiles st \<noteq> []) (fst v) = Inr l"
        then show ?thesis by (rule stream_inf_line_prefix)
      next
        assume "l = snd v"
        with vv urls have "\<not> prefix ''#'' l" by auto
        then show ?thesis by (rule not_hash_not_media)
      qed
    qed
    then show ?thesis by (simp add: filter_empty_conv)
  qed
  have fa: "filter (prefix ''#EXT-X-MEDIA:'') als = als"
  proof -
    have "\<forall>l \<in> set als. prefix ''#EXT-X-MEDIA:'' l"
    proof
      fix l assume "l \<in> set als"
      then obtain j where "j < length als" "l = als ! j" by (metis in_set_conv_nth)
      with als(2,3) have "audio_line (j = 0) (fst (avs ! j)) (snd (avs ! j)) = Inr l" by simp
      then show "prefix ''#EXT-X-MEDIA:'' l" by (rule audio_line_prefix)
    qed
    then show ?thesis by simp
  qed
  have fl: "filter (prefix ''#EXT-X-MEDIA:'') ls = als"
    by (simp add: vls(1) als(1) fv fa)
  show ?thesis
  proof (intro conjI allI impI)
    show "length (filter (prefix ''#EXT-X-MEDIA:'') ls) = length (filter is_audio ps)"
      by (simp add: fl als(2) len)
  next
    fix i assume i: "i < length (filter is_audio ps)"
    then have "audio_line (i = 0) (fst (avs ! i)) (snd (avs ! i)) = Inr (als ! i)"
      using als(3) len by simp
    moreover have "fst (avs ! i) = filter is_audio ps ! i"
      using au i len by (metis nth_map)
    ultimately have "audio_line (i = 0) (filter is_audio ps ! i) (snd (avs ! i)) = Inr (als ! i)"
      by simp
    from audio_line_text[OF this] show \<open>\<exists>pid u.
            id_p (filter is_audio ps ! i) = Some pid \<and>
            filter (prefix ''#EXT-X-MEDIA:'') ls ! i =
              ''#EXT-X-MEDIA:TYPE=AUDIO,GROUP-ID="audio",NAME="'' @ pid
              @ ''",DEFAULT='' @ (if i = 0 then ''YES'' else ''NO'')
              @ '',AUTOSELECT='' @ (if i = 0 then ''YES'' else ''NO'')
              @ '',LANGUAGE="''
              @ (case lang (filter is_audio ps ! i) of None \<Rightarrow> ''und'' | Some l \<Rightarrow> l)
              @ ''",URI="'' @ u @ ''"''\<close>
      unfolding fl by blast
  qed
qed


subsection \<open>The text of the master playlist\<close>

lemma text_lines_not_Nil: "text_lines s \<noteq> []"
  by (induction s) (auto split: list.splits)

lemma text_lines_plain: "no_newline x \<Longrightarrow> text_lines x = [x]"
  by (induction x) (auto simp add: no_newline_def)

lemma text_lines_append:
  "no_newline x \<Longrightarrow> text_lines (x @ CHR ''\<newline>'' # r) = x # text_lines r"
  by (induction x) (auto simp add: no_newline_def)

lemma text_lines_join:
  assumes "ls \<noteq> []" and "\<forall>l \<in> set ls. no_newline l"
  shows "text_lines (join ''\<newline>'' ls) = ls"
  using assms
proof (induction ls)
  case Nil
  then show ?case by simp
next
  case (Cons x xs)
  show ?case
  proof (cases xs)
    case Nil
    with Cons.prems show ?thesis by (simp add: text_lines_plain)
  next
    case (Cons y ys)
    with Cons.IH Cons.prems have "text_lines (join ''\<newline>'' xs) = xs" by simp
    with Cons Cons.prems show ?thesis by (simp add: text_lines_append)
  qed
qed

lemma digit_char_plain: "digit_char d \<noteq> CHR ''\<newline>''"
proof (cases "d < 10")
  case True
  then have "d \<in> {0, 1, 2, 3, 4, 5, 6, 7, 8, 9}" by auto
  then show ?thesis by (auto simp add: digit_char_def)
next
  case False
  then show ?thesis by (simp add: digit_char_def)
qed

lemma no_newline_str_nat: "no_newline (str_nat n)"
proof (induction n rule: str_nat.induct)
  case (1 n)
  then show ?case
    by (subst str_nat.simps) (auto simp add: no_newline_def digit_char_plain[symmetric])
qed

lemma no_newline_str_int: "no_newline (str_int i)"
  using no_newline_str_nat by (simp add: str_int_def no_newline_def)

lemma audio_line_plain:
  assumes "audio_line f p u = Inr l" and "plain_fields p" and "no_newline u"
  shows "no_newline l"
  using assms
  by (auto simp add: audio_line_def subscript_def Let_def plain_fields_def no_newline_def
      split: option.splits if_splits)

lemma stream_inf_line_plain:
  assumes "stream_inf_line ha p = Inr l" and "plain_fields p"
  shows "no_newline l"
  using assms no_newline_str_int
  by (auto simp add: stream_inf_line_def subscript_def Let_def plain_fields_def no_newline_def
      split: option.splits if_splits)


text \<open>What \<open>build_hls\<close> joins: the two header lines, the audio lines, the video lines.\<close>

lemma build_hls_lines_shape:
  assumes "profiles mpd = Some ps" and "distinct (map id_p ps)"
    and "build_hls_lines enc mpd req key_id key = Inr ls"
  shows "\<exists>als vls. ls = [''#EXTM3U'', ''#EXT-X-VERSION:6''] @ als @ vls
      \<and> length als = length (filter is_audio ps)
      \<and> (\<forall>j < length als. \<exists>qp e.
            audio_line (j = 0) (filter is_audio ps ! j) (enc (playlist_endpoint req) qp e)
            = Inr (als ! j))
      \<and> (\<forall>l \<in> set vls.
            (\<exists>q \<in> set ps. is_video q \<and> stream_inf_line (filter is_audio ps \<noteq> []) q = Inr l)
            \<or> (\<exists>qp e. l = enc (playlist_endpoint req) qp e))
      \<and> (\<forall>q \<in> set ps. is_video q \<longrightarrow>
            (\<exists>l \<in> set vls. stream_inf_line (filter is_audio ps \<noteq> []) q = Inr l))"
proof -
  from assms(3) obtain st hls1 where st: "classify enc mpd req key_id key = Inr st"
    and a: "audio_lines 0 (map snd (audio_profiles st)) [''#EXTM3U'', ''#EXT-X-VERSION:6''] = Inr hls1"
    and v: "video_lines (audio_profiles st \<noteq> []) (map snd (video_profiles st)) hls1 = Inr ls"
    by (rule build_hls_lines_parts)
  define avs where "avs = map snd (audio_profiles st)"
  define vvs where "vvs = map snd (video_profiles st)"
  have au: "map fst avs = filter is_audio ps"
    using classify_distinct(2)[OF st assms(1,2)] by (simp add: avs_def)
  have vi: "map fst vvs = filter is_video ps"
    using classify_distinct(1)[OF st assms(1,2)] by (simp add: vvs_def)
  have len: "length avs = length (filter is_audio ps)" using au by (metis length_map)
  have ha: "(audio_profiles st \<noteq> []) = (filter is_audio ps \<noteq> [])"
    using len by (metis avs_def length_0_conv length_map)
  have urls: "\<forall>e \<in> set (video_profiles st) \<union> set (audio_profiles st).
                \<exists>qp en. snd (snd e) = enc (playlist_endpoint req) qp en"
    using classify_urls[OF st, of "\<lambda>u. \<exists>qp en. u = enc (playlist_endpoint req) qp en"]
    by blast
  from audio_lines_shape[OF a] obtain als where als:
    "hls1 = [''#EXTM3U'', ''#EXT-X-VERSION:6''] @ als" "length als = length avs"
    "\<forall>j < length avs. audio_line (j = 0) (fst (avs ! j)) (snd (avs ! j)) = Inr (als ! j)"
    by (auto simp add: avs_def)
  from video_lines_shape[OF v] obtain vls where vls: "ls = hls1 @ vls"
    "\<forall>l \<in> set vls. (\<exists>v \<in> set vvs.
        stream_inf_line (audio_profiles st \<noteq> []) (fst v) = Inr l \<or> l = snd v)"
    "\<forall>v \<in> set vvs. \<exists>l \<in> set vls. stream_inf_line (audio_profiles st \<noteq> []) (fst v) = Inr l"
    by (auto simp add: vvs_def)
  have A: "\<forall>j < length als. \<exists>qp e.
            audio_line (j = 0) (filter is_audio ps ! j) (enc (playlist_endpoint req) qp e)
            = Inr (als ! j)"
  proof (intro allI impI)
    fix j assume j: "j < length als"
    then have jl: "j < length avs" using als(2) by simp
    then have "avs ! j \<in> set avs" by simp
    then obtain e where "e \<in> set (audio_profiles st)" "snd e = avs ! j"
      by (auto simp add: avs_def)
    with urls obtain qp en where "snd (avs ! j) = enc (playlist_endpoint req) qp en"
      by (metis UnCI)
    moreover have "fst (avs ! j) = filter is_audio ps ! j" using au jl by (metis nth_map)
    ultimately show "\<exists>qp e.
            audio_line (j = 0) (filter is_audio ps ! j) (enc (playlist_endpoint req) qp e)
            = Inr (als ! j)"
      using als(3) jl by metis
  qed
  have vset: "fst ` set vvs = {q \<in> set ps. is_video q}"
  proof -
    have "fst ` set vvs = set (map fst vvs)" by simp
    then show ?thesis unfolding vi by simp
  qed
  have V1: "\<forall>l \<in> set vls.
            (\<exists>q \<in> set ps. is_video q \<and> stream_inf_line (filter is_audio ps \<noteq> []) q = Inr l)
            \<or> (\<exists>qp e. l = enc (playlist_endpoint req) qp e)"
  proof
    fix l assume "l \<in> set vls"
    with vls(2) obtain v where vv: "v \<in> set vvs"
      and l: "stream_inf_line (audio_profiles st \<noteq> []) (fst v) = Inr l \<or> l = snd v"
      by blast
    from vv vset have q: "fst v \<in> set ps" "is_video (fst v)" by auto
    from vv obtain e where "e \<in> set (video_profiles st)" "snd e = v" by (auto simp add: vvs_def)
    with urls obtain qp en where u: "snd v = enc (playlist_endpoint req) qp en" by (metis UnCI)
    from l show "(\<exists>q \<in> set ps. is_video q \<and> stream_inf_line (filter is_audio ps \<noteq> []) q = Inr l)
            \<or> (\<exists>qp e. l = enc (playlist_endpoint req) qp e)"
      using q u ha by auto
  qed
  have V2: "\<forall>q \<in> set ps. is_video q \<longrightarrow>
            (\<exists>l \<in> set vls. stream_inf_line (filter is_audio ps \<noteq> []) q = Inr l)"
  proof (intro ballI impI)
    fix q assume "q \<in> set ps" "is_video q"
    then have "q \<in> fst ` set vvs" using vset by simp
    then obtain v where "v \<in> set vvs" "fst v = q" by (metis imageE)
    with vls(3) ha show "\<exists>l \<in> set vls. stream_inf_line (filter is_audio ps \<noteq> []) q = Inr l"
      by auto
  qed
  from vls(1) als(1) have L: "ls = [''#EXTM3U'', ''#EXT-X-VERSION:6''] @ als @ vls" by simp
  from als(2) len have n: "length als = length (filter is_audio ps)" by simp
  show ?thesis
    by (rule exI[of _ als], rule exI[of _ vls]) (use L n A V1 V2 in blast)
qed

lemma build_hls_lines_plain:
  assumes "profiles mpd = Some ps" and "distinct (map id_p ps)"
    and "build_hls_lines enc mpd req key_id key = Inr ls"
    and "\<forall>qp e. no_newline (enc (playlist_endpoint req) qp e)"
    and "\<forall>p \<in> set ps. plain_fields p"
  shows "\<forall>l \<in> set ls. no_newline l"
proof -
  from build_hls_lines_shape[OF assms(1,2,3)] obtain als vls where
    ls: "ls = [''#EXTM3U'', ''#EXT-X-VERSION:6''] @ als @ vls"
    and len: "length als = length (filter is_audio ps)"
    and A: "\<forall>j < length als. \<exists>qp e.
            audio_line (j = 0) (filter is_audio ps ! j) (enc (playlist_endpoint req) qp e)
            = Inr (als ! j)"
    and V: "\<forall>l \<in> set vls.
            (\<exists>q \<in> set ps. is_video q \<and> stream_inf_line (filter is_audio ps \<noteq> []) q = Inr l)
            \<or> (\<exists>qp e. l = enc (playlist_endpoint req) qp e)"
    by blast
  have a: "\<forall>l \<in> set als. no_newline l"
  proof
    fix l assume "l \<in> set als"
    then obtain j where j: "j < length als" "l = als ! j" by (metis in_set_conv_nth)
    with A obtain qp e where
      al: "audio_line (j = 0) (filter is_audio ps ! j) (enc (playlist_endpoint req) qp e) = Inr l"
      by blast
    have "filter is_audio ps ! j \<in> set (filter is_audio ps)"
      using j(1) len by (metis nth_mem)
    then have "filter is_audio ps ! j \<in> set ps" by (metis filter_is_subset subsetD)
    then have "plain_fields (filter is_audio ps ! j)" using assms(5) by blast
    with al assms(4) show "no_newline l" by (blast intro: audio_line_plain)
  qed
  have v: "\<forall>l \<in> set vls. no_newline l"
  proof
    fix l assume "l \<in> set vls"
    with V assms(4,5) show "no_newline l" by (blast intro: stream_inf_line_plain)
  qed
  show ?thesis using a v by (auto simp add: ls no_newline_def)
qed

lemma build_hls_text:
  assumes "build_hls enc mpd req key_id key = Inr text"
  obtains ls where "build_hls_lines enc mpd req key_id key = Inr ls"
    and "text = join ''\<newline>'' ls"
  using assms by (auto simp add: build_hls_def split: sum.splits)

lemma build_hls_text_lines:
  assumes "profiles mpd = Some ps" and "distinct (map id_p ps)"
    and "build_hls_lines enc mpd req key_id key = Inr ls"
    and "\<forall>qp e. no_newline (enc (playlist_endpoint req) qp e)"
    and "\<forall>p \<in> set ps. plain_fields p"
  shows "text_lines (join ''\<newline>'' ls) = ls"
proof -
  from build_hls_lines_shape[OF assms(1,2,3)] have "ls \<noteq> []" by auto
  moreover have "\<forall>l \<in> set ls. no_newline l"
    using assms by (rule build_hls_lines_plain)
  ultimately show ?thesis by (rule text_lines_join)
qed

lemma sample_master_text:
  \<open>build_hls sample_encode
     (sample_mpd [sample_video, sample_audio ''a1'' (Some ''en''), sample_audio ''a2'' None])
     sample_request None None
   = Inr ''#EXTM3U\<newline>#EXT-X-VERSION:6\<newline>#EXT-X-MEDIA:TYPE=AUDIO,GROUP-ID="audio",NAME="a1",DEFAULT=YES,AUTOSELECT=YES,LANGUAGE="en",URI="http://p/playlist?a1"\<newline>#EXT-X-MEDIA:TYPE=AUDIO,GROUP-ID="audio",NAME="a2",DEFAULT=NO,AUTOSELECT=NO,LANGUAGE="und",URI="http://p/playlist?a2"\<newline>#EXT-X-STREAM-INF:BANDWIDTH=500000,RESOLUTION=640x360,CODECS="avc1",FRAME-RATE=30,AUDIO="audio"\<newline>http://p/playlist?v1''\<close>
  by (simp add: eval_defs)


lemma sample_encode_plain:
  "\<forall>qp e. \<not> prefix ''#'' (sample_encode (playlist_endpoint sample_request) qp e)
          \<and> no_newline (sample_encode (playlist_endpoint sample_request) qp e)"
  by (simp add: sample_encode_def sample_request_def no_newline_def)

lemma sample_plain_fields:
  "plain_fields sample_video" "plain_fields (sample_audio ''a1'' (Some ''en''))"
  "plain_fields (sample_audio ''a2'' None)"
  "plain_fields (sample_video\<lparr>mimeType := Some ''audio+video/mp4''\<rparr>)"
  by (simp_all add: plain_fields_def no_newline_def sample_video_def sample_audio_def)

text \<open>
  Claim C7 as it is stated fails on the text returned: nothing in \<open>build_hls\<close> keeps a
  newline out of the strings it prints. With one audio profile whose \<open>lang\<close> holds a
  newline followed by a line of its own, the playlist has two lines that start with
  \<open>#EXT-X-MEDIA:\<close>, both with \<open>DEFAULT=YES,AUTOSELECT=YES\<close>.
\<close>

theorem audio_media_lines_counterexample:
  \<open>build_hls sample_encode
     (sample_mpd [sample_audio ''a1'' (Some ''en"\<newline>#EXT-X-MEDIA:TYPE=AUDIO,GROUP-ID="audio",NAME="x",DEFAULT=YES,AUTOSELECT=YES,LANGUAGE="fr'')])
     sample_request None None
   = Inr ''#EXTM3U\<newline>#EXT-X-VERSION:6\<newline>#EXT-X-MEDIA:TYPE=AUDIO,GROUP-ID="audio",NAME="a1",DEFAULT=YES,AUTOSELECT=YES,LANGUAGE="en"\<newline>#EXT-X-MEDIA:TYPE=AUDIO,GROUP-ID="audio",NAME="x",DEFAULT=YES,AUTOSELECT=YES,LANGUAGE="fr",URI="http://p/playlist?a1"''
   \<and> filter is_audio
       [sample_audio ''a1'' (Some ''en"\<newline>#EXT-X-MEDIA:TYPE=AUDIO,GROUP-ID="audio",NAME="x",DEFAULT=YES,AUTOSELECT=YES,LANGUAGE="fr'')]
     = [sample_audio ''a1'' (Some ''en"\<newline>#EXT-X-MEDIA:TYPE=AUDIO,GROUP-ID="audio",NAME="x",DEFAULT=YES,AUTOSELECT=YES,LANGUAGE="fr'')]
   \<and> filter (prefix ''#EXT-X-MEDIA:'') (text_lines
       ''#EXTM3U\<newline>#EXT-X-VERSION:6\<newline>#EXT-X-MEDIA:TYPE=AUDIO,GROUP-ID="audio",NAME="a1",DEFAULT=YES,AUTOSELECT=YES,LANGUAGE="en"\<newline>#EXT-X-MEDIA:TYPE=AUDIO,GROUP-ID="audio",NAME="x",DEFAULT=YES,AUTOSELECT=YES,LANGUAGE="fr",URI="http://p/playlist?a1"'')
     = [''#EXT-X-MEDIA:TYPE=AUDIO,GROUP-ID="audio",NAME="a1",DEFAULT=YES,AUTOSELECT=YES,LANGUAGE="en"'',
        ''#EXT-X-MEDIA:TYPE=AUDIO,GROUP-ID="audio",NAME="x",DEFAULT=YES,AUTOSELECT=YES,LANGUAGE="fr",URI="http://p/playlist?a1"'']\<close>
  by (simp add: eval_defs is_audio_def)

text \<open>
  Claim C7, amended. In a manifest whose profiles have distinct ids and no newline in
  their id, language, codecs and frame rate, with a codec whose URLs hold no newline and
  do not start with \<open>#\<close>: in the text \<open>build_hls\<close> returns, the lines that start with
  \<open>#EXT-X-MEDIA:\<close> are as many as the audio profiles, none when there is none; the
  line of index \<open>i\<close> is the one of the audio profile of index \<open>i\<close>, with
  \<open>DEFAULT=YES,AUTOSELECT=YES\<close> for the first and \<open>DEFAULT=NO,AUTOSELECT=NO\<close> for every
  later one.
\<close>

theorem audio_media_lines:
  assumes "profiles mpd = Some ps" and "distinct (map id_p ps)"
    and "build_hls enc mpd req key_id key = Inr text"
    and "\<forall>qp e. \<not> prefix ''#'' (enc (playlist_endpoint req) qp e)
               \<and> no_newline (enc (playlist_endpoint req) qp e)"
    and "\<forall>p \<in> set ps. plain_fields p"
  shows \<open>length (filter (prefix ''#EXT-X-MEDIA:'') (text_lines text))
         = length (filter is_audio ps)
       \<and> (\<forall>i < length (filter is_audio ps). \<exists>pid u.
            id_p (filter is_audio ps ! i) = Some pid \<and>
            filter (prefix ''#EXT-X-MEDIA:'') (text_lines text) ! i =
              ''#EXT-X-MEDIA:TYPE=AUDIO,GROUP-ID="audio",NAME="'' @ pid
              @ ''",DEFAULT='' @ (if i = 0 then ''YES'' else ''NO'')
              @ '',AUTOSELECT='' @ (if i = 0 then ''YES'' else ''NO'')
              @ '',LANGUAGE="''
              @ (case lang (filter is_audio ps ! i) of None \<Rightarrow> ''und'' | Some l \<Rightarrow> l)
              @ ''",URI="'' @ u @ ''"'')\<close>
proof -
  from assms(3) obtain ls where ls: "build_hls_lines enc mpd req key_id key = Inr ls"
    and tx: "text = join ''\<newline>'' ls"
    by (rule build_hls_text)
  have "text_lines text = ls"
    unfolding tx using assms(1,2) ls assms(4,5) by (intro build_hls_text_lines) blast+
  moreover have "\<forall>qp e. \<not> prefix ''#'' (enc (playlist_endpoint req) qp e)"
    using assms(4) by blast
  ultimately show ?thesis
    using media_lines_of_list[OF assms(1,2) ls] by simp
qed

theorem audio_media_lines_witness:
  \<open>length (filter (prefix ''#EXT-X-MEDIA:'') (text_lines
       ''#EXTM3U\<newline>#EXT-X-VERSION:6\<newline>#EXT-X-MEDIA:TYPE=AUDIO,GROUP-ID="audio",NAME="a1",DEFAULT=YES,AUTOSELECT=YES,LANGUAGE="en",URI="http://p/playlist?a1"\<newline>#EXT-X-MEDIA:TYPE=AUDIO,GROUP-ID="audio",NAME="a2",DEFAULT=NO,AUTOSELECT=NO,LANGUAGE="und",URI="http://p/playlist?a2"\<newline>#EXT-X-STREAM-INF:BANDWIDTH=500000,RESOLUTION=640x360,CODECS="avc1",FRAME-RATE=30,AUDIO="audio"\<newline>http://p/playlist?v1'')) = 2
   \<and> (\<exists>u. filter (prefix ''#EXT-X-MEDIA:'') (text_lines
       ''#EXTM3U\<newline>#EXT-X-VERSION:6\<newline>#EXT-X-MEDIA:TYPE=AUDIO,GROUP-ID="audio",NAME="a1",DEFAULT=YES,AUTOSELECT=YES,LANGUAGE="en",URI="http://p/playlist?a1"\<newline>#EXT-X-MEDIA:TYPE=AUDIO,GROUP-ID="audio",NAME="a2",DEFAULT=NO,AUTOSELECT=NO,LANGUAGE="und",URI="http://p/playlist?a2"\<newline>#EXT-X-STREAM-INF:BANDWIDTH=500000,RESOLUTION=640x360,CODECS="avc1",FRAME-RATE=30,AUDIO="audio"\<newline>http://p/playlist?v1'') ! 0
       = ''#EXT-X-MEDIA:TYPE=AUDIO,GROUP-ID="audio",NAME="a1",DEFAULT=YES,AUTOSELECT=YES,LANGUAGE="en",URI="''
         @ u @ ''"'')
   \<and> (\<exists>u. filter (prefix ''#EXT-X-MEDIA:'') (text_lines
       ''#EXTM3U\<newline>#EXT-X-VERSION:6\<newline>#EXT-X-MEDIA:TYPE=AUDIO,GROUP-ID="audio",NAME="a1",DEFAULT=YES,AUTOSELECT=YES,LANGUAGE="en",URI="http://p/playlist?a1"\<newline>#EXT-X-MEDIA:TYPE=AUDIO,GROUP-ID="audio",NAME="a2",DEFAULT=NO,AUTOSELECT=NO,LANGUAGE="und",URI="http://p/playlist?a2"\<newline>#EXT-X-STREAM-INF:BANDWIDTH=500000,RESOLUTION=640x360,CODECS="avc1",FRAME-RATE=30,AUDIO="audio"\<newline>http://p/playlist?v1'') ! 1
       = ''#EXT-X-MEDIA:TYPE=AUDIO,GROUP-ID="audio",NAME="a2",DEFAULT=NO,AUTOSELECT=NO,LANGUAGE="und",URI="''
         @ u @ ''"'')\<close>
proof -
  let ?ps = "[sample_video, sample_audio ''a1'' (Some ''en''), sample_audio ''a2'' None]"
  have h1: "profiles (sample_mpd ?ps) = Some ?ps" by (simp add: sample_mpd_def)
  have h2: "distinct (map id_p ?ps)" by (simp add: sample_video_def sample_audio_def)
  have h5: "\<forall>p \<in> set ?ps. plain_fields p" by (simp add: sample_plain_fields)
  have au: "filter is_audio ?ps = [sample_audio ''a1'' (Some ''en''), sample_audio ''a2'' None]"
    by (simp add: sample_video_def sample_audio_def is_audio_def)
  note t = audio_media_lines[OF h1 h2 sample_master_text sample_encode_plain h5, unfolded au]
  have n: "(0::nat) < length [sample_audio ''a1'' (Some ''en''), sample_audio ''a2'' None]"
    "(1::nat) < length [sample_audio ''a1'' (Some ''en''), sample_audio ''a2'' None]"
    by simp_all
  from t[THEN conjunct1] t[THEN conjunct2, rule_format, OF n(1)]
       t[THEN conjunct2, rule_format, OF n(2)]
  show ?thesis by (simp add: sample_audio_def)
qed



subsection \<open>The loop of the media playlist\<close>

lemma segment_lines_same_output:
  assumes "same_output s t"
  shows "rel_sum (=) (\<lambda>a b. fst a = fst b \<and> same_output (snd a) (snd b))
           (segment_lines enc u he iu p segs (qp, s)) (segment_lines enc u he iu p segs (qp, t))"
  using assms
proof (induction segs arbitrary: qp s t)
  case Nil
  then show ?case by simp
next
  case (Cons sg segs)
  show ?case
  proof (cases "extinf sg = None \<or> media sg = None \<or> mimeType p = None")
    case True
    then show ?thesis by (auto simp add: subscript_def split: option.splits)
  next
    case False
    then obtain x m mt where f: "extinf sg = Some x" "media sg = Some m" "mimeType p = Some mt"
      by auto
    define qp' where "qp' = AList.update ''mime_type'' mt
                    (AList.update ''segment_url'' m (AList.update ''init_url'' iu qp))"
    define l where "l = [''#EXTINF:'' @ fmt_3f x @ '','', enc u qp' he]"
    have "same_output (s\<lparr>hls := hls s @ l, added_segments := added_segments s + 1\<rparr>)
                      (t\<lparr>hls := hls t @ l, added_segments := added_segments t + 1\<rparr>)"
      using Cons.prems by (simp add: same_output_def)
    from Cons.IH[OF this, of qp'] show ?thesis
      by (simp add: f subscript_def Let_def qp'_def l_def)
  qed
qed

lemma playlist_header_same_output:
  assumes "same_output s t"
  shows "rel_sum (=) same_output (playlist_header mpd p segs fs s) (playlist_header mpd p segs fs t)"
  using assms
  by (auto simp add: playlist_header_def same_output_def subscript_def Let_def
      split: sum.splits option.splits)

lemma playlist_profile_skip:
  assumes "segments p = Some []" and "id_p p = Some pid"
  shows "playlist_profile enc mpd req i p s =
     Inr (s\<lparr>log := log s @ [Warning (''No segments found for profile '' @ pid)]\<rparr>)"
  by (simp add: playlist_profile_def assms subscript_def)

lemma playlist_profile_same_output:
  assumes "same_output s t"
  shows "rel_sum (=) same_output (playlist_profile enc mpd req i p s)
           (playlist_profile enc mpd req i p t)"
proof (cases "segments p")
  case None
  then show ?thesis by (simp add: playlist_profile_def subscript_def)
next
  case (Some segs)
  show ?thesis
  proof (cases segs)
    case Nil
    with Some assms show ?thesis
      by (cases "id_p p") (simp_all add: playlist_profile_def subscript_def same_output_def)
  next
    case (Cons fs rest)
    define hs where "hs = (if i = 0 then playlist_header mpd p segs fs s else Inr s)"
    define ht where "ht = (if i = 0 then playlist_header mpd p segs fs t else Inr t)"
    define sl where "sl = (\<lambda>iu st. segment_lines enc (segment_endpoint req)
                       (has_encrypted_of
                          (AList.delete ''d'' (AList.delete ''profile_id'' (query_params req))))
                       iu p segs
                       (AList.delete ''has_encrypted''
                          (AList.delete ''d'' (AList.delete ''profile_id'' (query_params req))),
                        st))"
    have step: "\<And>st. playlist_profile enc mpd req i p st =
         (case (if i = 0 then playlist_header mpd p segs fs st else Inr st) of
            Inl e \<Rightarrow> Inl e
          | Inr st1 \<Rightarrow> (case initUrl p of None \<Rightarrow> Inl (KeyError ''initUrl'')
               | Some iu \<Rightarrow> (case sl iu st1 of Inl e \<Rightarrow> Inl e | Inr a \<Rightarrow> Inr (snd a))))"
      unfolding playlist_profile_def sl_def using Some Cons
      by (simp del: segment_lines.simps add: subscript_def Let_def case_prod_unfold
          split: option.splits cong: sum.case_cong if_cong split del: if_split)
    have h: "rel_sum (=) same_output hs ht"
      using playlist_header_same_output[OF assms] assms by (simp add: hs_def ht_def)
    show ?thesis
    proof (cases hs)
      case (Inl e)
      with h have "ht = Inl e" by (cases ht) auto
      with Inl show ?thesis
        unfolding step hs_def[symmetric] ht_def[symmetric] by simp
    next
      case (Inr s1)
      with h obtain t1 where t1: "ht = Inr t1" "same_output s1 t1" by (cases ht) auto
      show ?thesis
      proof (cases "initUrl p")
        case None
        then show ?thesis
          unfolding step hs_def[symmetric] ht_def[symmetric] using Inr t1 by simp
      next
        case (Some iu)
        have r: "rel_sum (=) (\<lambda>a b. fst a = fst b \<and> same_output (snd a) (snd b))
                   (sl iu s1) (sl iu t1)"
          unfolding sl_def using t1(2) by (rule segment_lines_same_output)
        have L: "playlist_profile enc mpd req i p s
                 = (case sl iu s1 of Inl e \<Rightarrow> Inl e | Inr a \<Rightarrow> Inr (snd a))"
          unfolding step hs_def[symmetric] using Inr Some by simp
        have R: "playlist_profile enc mpd req i p t
                 = (case sl iu t1 of Inl e \<Rightarrow> Inl e | Inr a \<Rightarrow> Inr (snd a))"
          unfolding step ht_def[symmetric] using t1(1) Some by simp
        show ?thesis
          unfolding L R using r by (cases "sl iu s1"; cases "sl iu t1") auto
      qed
    qed
  qed
qed

lemma playlist_profiles_same_output:
  assumes "same_output s t"
  shows "rel_sum (=) same_output (playlist_profiles enc mpd req i ps s)
           (playlist_profiles enc mpd req i ps t)"
  using assms
proof (induction ps arbitrary: i s t)
  case Nil
  then show ?case by simp
next
  case (Cons p ps)
  have r: "rel_sum (=) same_output (playlist_profile enc mpd req i p s)
             (playlist_profile enc mpd req i p t)"
    using Cons.prems by (rule playlist_profile_same_output)
  show ?case
  proof (cases "playlist_profile enc mpd req i p s")
    case (Inl e)
    with r have "playlist_profile enc mpd req i p t = Inl e"
      by (cases "playlist_profile enc mpd req i p t") auto
    with Inl show ?thesis by simp
  next
    case (Inr s1)
    with r obtain t1 where t1: "playlist_profile enc mpd req i p t = Inr t1" "same_output s1 t1"
      by (cases "playlist_profile enc mpd req i p t") auto
    from Cons.IH[OF t1(2), of "Suc i"] show ?thesis by (simp add: Inr t1(1))
  qed
qed

text \<open>Past the first index, the index plays no part.\<close>

lemma playlist_profile_index:
  "playlist_profile enc mpd req (Suc i) p s = playlist_profile enc mpd req (Suc j) p s"
  by (simp add: playlist_profile_def cong: sum.case_cong list.case_cong)

lemma playlist_profiles_index:
  "playlist_profiles enc mpd req (Suc i) ps s = playlist_profiles enc mpd req (Suc j) ps s"
proof (induction ps arbitrary: i j s)
  case Nil
  then show ?case by simp
next
  case (Cons p ps)
  show ?case
    using Cons.IH[of "Suc i" _ "Suc j"] playlist_profile_index[of enc mpd req i p s j]
    by (simp split: sum.splits)
qed

lemma playlist_profiles_append:
  "playlist_profiles enc mpd req i (ps1 @ ps2) s =
     (case playlist_profiles enc mpd req i ps1 s of
        Inl e \<Rightarrow> Inl e
      | Inr s1 \<Rightarrow> playlist_profiles enc mpd req (i + length ps1) ps2 s1)"
proof (induction ps1 arbitrary: i s)
  case Nil
  then show ?case by simp
next
  case (Cons p ps1)
  show ?case
    using Cons.IH[of "Suc i"] by (simp split: sum.splits)
qed

subsection \<open>The media playlist\<close>

lemma build_hls_playlist_cong:
  assumes "rel_sum (=) same_output
             (playlist_profiles enc mpd req 0 ps
                \<lparr>hls = [''#EXTM3U'', ''#EXT-X-VERSION:6''], added_segments = 0, log = []\<rparr>)
             (playlist_profiles enc mpd req 0 ps'
                \<lparr>hls = [''#EXTM3U'', ''#EXT-X-VERSION:6''], added_segments = 0, log = []\<rparr>)"
  shows "build_hls_playlist enc mpd ps req = build_hls_playlist enc mpd ps' req"
  using assms
  by (auto simp add: build_hls_playlist_def build_hls_playlist_state_def subscript_def
      same_output_def Let_def rel_sum.simps split: option.splits)

text \<open>
  Claim C8. A profile with an empty segment list, and an id for the warning to name,
  never makes the loop fail: its round logs the warning \<open>No segments found for profile\<close>
  and leaves the lines and the count of segments as they were, and the loop goes on with
  the remaining profiles. Anywhere but in the first place of the list, the playlist
  returned is the one returned without that profile (failures included).
\<close>

theorem empty_profile_skipped:
  assumes "segments p = Some []" and "id_p p = Some pid"
  shows "playlist_profile enc mpd req i p st
         = Inr (st\<lparr>log := log st @ [Warning (''No segments found for profile '' @ pid)]\<rparr>)
       \<and> playlist_profiles enc mpd req i (p # ps) st
         = playlist_profiles enc mpd req (Suc i) ps
             (st\<lparr>log := log st @ [Warning (''No segments found for profile '' @ pid)]\<rparr>)
       \<and> (ps1 \<noteq> [] \<longrightarrow>
            build_hls_playlist enc mpd (ps1 @ p # ps2) req
            = build_hls_playlist enc mpd (ps1 @ ps2) req)"
proof (intro conjI impI)
  show skip: "playlist_profile enc mpd req i p st
         = Inr (st\<lparr>log := log st @ [Warning (''No segments found for profile '' @ pid)]\<rparr>)"
    for i st
    using assms by (rule playlist_profile_skip)
  then show "playlist_profiles enc mpd req i (p # ps) st
         = playlist_profiles enc mpd req (Suc i) ps
             (st\<lparr>log := log st @ [Warning (''No segments found for profile '' @ pid)]\<rparr>)"
    by simp
  assume "ps1 \<noteq> []"
  then obtain n where n: "length ps1 = Suc n" by (cases ps1) auto
  let ?st0 = "\<lparr>hls = [''#EXTM3U'', ''#EXT-X-VERSION:6''], added_segments = 0, log = []\<rparr>"
  let ?w = "Warning (''No segments found for profile '' @ pid)"
  have "rel_sum (=) same_output (playlist_profiles enc mpd req 0 (ps1 @ p # ps2) ?st0)
          (playlist_profiles enc mpd req 0 (ps1 @ ps2) ?st0)"
  proof (cases "playlist_profiles enc mpd req 0 ps1 ?st0")
    case (Inl e)
    then show ?thesis by (simp add: playlist_profiles_append)
  next
    case (Inr s1)
    have "same_output (s1\<lparr>log := log s1 @ [?w]\<rparr>) s1" by (simp add: same_output_def)
    then have "rel_sum (=) same_output
                 (playlist_profiles enc mpd req (Suc (Suc n)) ps2 (s1\<lparr>log := log s1 @ [?w]\<rparr>))
                 (playlist_profiles enc mpd req (Suc (Suc n)) ps2 s1)"
      by (rule playlist_profiles_same_output)
    moreover have "playlist_profiles enc mpd req (Suc n) ps2 s1
                   = playlist_profiles enc mpd req (Suc (Suc n)) ps2 s1"
      by (rule playlist_profiles_index)
    ultimately show ?thesis
      by (simp add: playlist_profiles_append Inr n skip)
  qed
  then show "build_hls_playlist enc mpd (ps1 @ p # ps2) req
            = build_hls_playlist enc mpd (ps1 @ ps2) req"
    by (rule build_hls_playlist_cong)
qed

theorem empty_profile_skipped_witness:
  "playlist_profile sample_encode (sample_mpd []) sample_request 0
     (sample_video\<lparr>segments := Some []\<rparr>)
     \<lparr>hls = [''#EXTM3U'', ''#EXT-X-VERSION:6''], added_segments = 0, log = []\<rparr>
   = Inr \<lparr>hls = [''#EXTM3U'', ''#EXT-X-VERSION:6''], added_segments = 0,
          log = [Warning ''No segments found for profile v1'']\<rparr>
   \<and> build_hls_playlist sample_encode (sample_mpd [])
       [sample_video, sample_video\<lparr>segments := Some []\<rparr>, sample_video] sample_request
     = build_hls_playlist sample_encode (sample_mpd []) [sample_video, sample_video]
         sample_request"
proof -
  let ?p = "sample_video\<lparr>segments := Some []\<rparr>"
  have h1: "segments ?p = Some []" by simp
  have h2: "id_p ?p = Some ''v1''" by (simp add: sample_video_def)
  have h3: "[sample_video] \<noteq> []" by simp
  note t = empty_profile_skipped[OF h1 h2, of sample_encode "sample_mpd []" sample_request 0
      "\<lparr>hls = [''#EXTM3U'', ''#EXT-X-VERSION:6''], added_segments = 0, log = []\<rparr>"
      "[]" "[sample_video]" "[sample_video]"]
  from t[THEN conjunct1] t[THEN conjunct2, THEN conjunct2, rule_format, OF h3]
  show ?thesis by simp
qed

text \<open>
  Claim C1 fails on the code. The header is written under \<open>if index == 0\<close>, which the
  \<open>continue\<close> of a first profile without segments jumps over, and no later profile has
  index 0: with the sample video profile behind an empty one of the same id (the two
  profiles \<open>process_playlist\<close> selects for that id), the playlist has its segments
  and no \<open>#EXT-X-TARGETDURATION\<close>, \<open>#EXT-X-MEDIA-SEQUENCE\<close> or
  \<open>#EXT-X-PLAYLIST-TYPE\<close> line, whereas the same profile alone gets the three.
\<close>

theorem build_hls_playlist_empty_first_profile:
  "process_playlist sample_encode sample_request
     (sample_mpd [sample_video\<lparr>segments := Some []\<rparr>, sample_video]) ''v1''
   = Inr ''#EXTM3U\<newline>#EXT-X-VERSION:6\<newline>#EXTINF:4.000,\<newline>http://p/segment?s1\<newline>#EXTINF:4.000,\<newline>http://p/segment?s2\<newline>#EXT-X-ENDLIST''
   \<and> build_hls_playlist sample_encode
       (sample_mpd [sample_video\<lparr>segments := Some []\<rparr>, sample_video])
       [sample_video\<lparr>segments := Some []\<rparr>, sample_video] sample_request
   = Inr ''#EXTM3U\<newline>#EXT-X-VERSION:6\<newline>#EXTINF:4.000,\<newline>http://p/segment?s1\<newline>#EXTINF:4.000,\<newline>http://p/segment?s2\<newline>#EXT-X-ENDLIST''
   \<and> build_hls_playlist sample_encode
       (sample_mpd [sample_video\<lparr>segments := Some []\<rparr>, sample_video])
       [sample_video] sample_request
   = Inr ''#EXTM3U\<newline>#EXT-X-VERSION:6\<newline>#EXT-X-TARGETDURATION:4\<newline>#EXT-X-MEDIA-SEQUENCE:1\<newline>#EXT-X-PLAYLIST-TYPE:VOD\<newline>#EXTINF:4.000,\<newline>http://p/segment?s1\<newline>#EXTINF:4.000,\<newline>http://p/segment?s2\<newline>#EXT-X-ENDLIST''"
  by (simp add: eval_defs eval_playlist_defs process_playlist_def)

subsection \<open>Repeated calls\<close>

text \<open>A codec that reads its parameters as a mapping sees the same dict in two orders.\<close>

lemma classify_profile_same_map:
  assumes codec: "\<forall>u qp qp' e. map_of qp = map_of qp' \<longrightarrow> enc u qp e = enc u qp' e"
    and "map_of (c_params s1) = map_of (c_params s2)"
    and "video_profiles s1 = video_profiles s2" and "audio_profiles s1 = audio_profiles s2"
  shows "rel_sum (=)
           (\<lambda>a b. map_of (c_params a) = map_of (c_params b)
                  \<and> video_profiles a = video_profiles b \<and> audio_profiles a = audio_profiles b)
           (classify_profile enc u he kid k p s1) (classify_profile enc u he kid k p s2)"
proof (cases "id_p p")
  case None
  then show ?thesis by (simp add: classify_profile_def subscript_def)
next
  case (Some pid)
  define q1 where "q1 = AList.update ''key'' (or_empty k)
                   (AList.update ''key_id'' (or_empty kid)
                     (AList.update ''profile_id'' pid (c_params s1)))"
  define q2 where "q2 = AList.update ''key'' (or_empty k)
                   (AList.update ''key_id'' (or_empty kid)
                     (AList.update ''profile_id'' pid (c_params s2)))"
  have m: "map_of q1 = map_of q2"
    using assms(2) by (simp add: q1_def q2_def update_conv')
  with codec have "enc u q1 he = enc u q2 he" by blast
  with m assms(3,4) Some show ?thesis
    by (cases "mimeType p")
       (simp_all add: classify_profile_def subscript_def Let_def q1_def[symmetric] q2_def[symmetric])
qed

lemma classify_profiles_same_map:
  assumes codec: "\<forall>u qp qp' e. map_of qp = map_of qp' \<longrightarrow> enc u qp e = enc u qp' e"
    and "map_of (c_params s1) = map_of (c_params s2)"
    and "video_profiles s1 = video_profiles s2" and "audio_profiles s1 = audio_profiles s2"
  shows "rel_sum (=)
           (\<lambda>a b. map_of (c_params a) = map_of (c_params b)
                  \<and> video_profiles a = video_profiles b \<and> audio_profiles a = audio_profiles b)
           (classify_profiles enc u he kid k ps s1) (classify_profiles enc u he kid k ps s2)"
  using assms(2-)
proof (induction ps arbitrary: s1 s2)
  case Nil
  then show ?case by simp
next
  case (Cons p ps)
  have r: "rel_sum (=)
           (\<lambda>a b. map_of (c_params a) = map_of (c_params b)
                  \<and> video_profiles a = video_profiles b \<and> audio_profiles a = audio_profiles b)
           (classify_profile enc u he kid k p s1) (classify_profile enc u he kid k p s2)"
    using codec Cons.prems by (rule classify_profile_same_map)
  show ?case
  proof (cases "classify_profile enc u he kid k p s1")
    case (Inl e)
    with r have "classify_profile enc u he kid k p s2 = Inl e"
      by (cases "classify_profile enc u he kid k p s2") auto
    with Inl show ?thesis by simp
  next
    case (Inr a)
    with r obtain b where b: "classify_profile enc u he kid k p s2 = Inr b"
      "map_of (c_params a) = map_of (c_params b)" "video_profiles a = video_profiles b"
      "audio_profiles a = audio_profiles b"
      by (cases "classify_profile enc u he kid k p s2") auto
    from Cons.IH[OF b(2,3,4)] show ?thesis by (simp add: Inr b(1))
  qed
qed

lemma build_hls_same_map:
  assumes codec: "\<forall>u qp qp' e. map_of qp = map_of qp' \<longrightarrow> enc u qp e = enc u qp' e"
    and qp: "map_of (query_params r1) = map_of (query_params r2)"
    and ep: "playlist_endpoint r1 = playlist_endpoint r2"
  shows "build_hls enc mpd r1 key_id key = build_hls enc mpd r2 key_id key"
proof -
  have he: "has_encrypted_of (query_params r1) = has_encrypted_of (query_params r2)"
    using qp by (simp add: has_encrypted_of_def)
  have del: "map_of (AList.delete ''has_encrypted'' (query_params r1))
             = map_of (AList.delete ''has_encrypted'' (query_params r2))"
    using qp by (simp add: delete_conv')
  have "rel_sum (=)
           (\<lambda>a b. map_of (c_params a) = map_of (c_params b)
                  \<and> video_profiles a = video_profiles b \<and> audio_profiles a = audio_profiles b)
           (classify enc mpd r1 key_id key) (classify enc mpd r2 key_id key)"
  proof (cases "profiles mpd")
    case None
    then show ?thesis by (simp add: classify_def subscript_def)
  next
    case (Some ps)
    from classify_profiles_same_map[OF codec, of
        "\<lparr>c_params = AList.delete ''has_encrypted'' (query_params r1), video_profiles = [],
          audio_profiles = []\<rparr>"
        "\<lparr>c_params = AList.delete ''has_encrypted'' (query_params r2), video_profiles = [],
          audio_profiles = []\<rparr>"
        "playlist_endpoint r2" "has_encrypted_of (query_params r2)" key_id key ps] del
    show ?thesis by (simp add: classify_def subscript_def Some he ep Let_def)
  qed
  then have "build_hls_lines enc mpd r1 key_id key = build_hls_lines enc mpd r2 key_id key"
    by (cases "classify enc mpd r1 key_id key"; cases "classify enc mpd r2 key_id key")
       (auto simp add: build_hls_lines_def cong: sum.case_cong)
  then show ?thesis by (simp add: build_hls_def)
qed

text \<open>
  Claim C9. For a fixed codec, two calls of \<open>build_hls\<close> in a row with the same key id
  and key, on the same manifest and request, return the same text (or the same error):
  the first call leaves the manifest and the request as they were. With a codec that
  reads its parameters as a mapping, two requests with the same query parameter map and
  the same endpoint give the same result, in whatever order the parameters come.
\<close>

theorem build_hls_repeatable:
  "fst (build_hls_call enc key_id key (snd (build_hls_call enc key_id key env)))
   = fst (build_hls_call enc key_id key env)
   \<and> snd (build_hls_call enc key_id key env) = env
   \<and> ((\<forall>u qp qp' e. map_of qp = map_of qp' \<longrightarrow> enc u qp e = enc u qp' e)
        \<and> map_of (query_params r1) = map_of (query_params r2)
        \<and> playlist_endpoint r1 = playlist_endpoint r2
       \<longrightarrow> build_hls enc mpd r1 key_id key = build_hls enc mpd r2 key_id key)"
proof (intro conjI impI)
  show "fst (build_hls_call enc key_id key (snd (build_hls_call enc key_id key env)))
        = fst (build_hls_call enc key_id key env)"
    by (simp add: build_hls_call_def)
  show "snd (build_hls_call enc key_id key env) = env"
    by (simp add: build_hls_call_def)
  assume "(\<forall>u qp qp' e. map_of qp = map_of qp' \<longrightarrow> enc u qp e = enc u qp' e)
        \<and> map_of (query_params r1) = map_of (query_params r2)
        \<and> playlist_endpoint r1 = playlist_endpoint r2"
  then show "build_hls enc mpd r1 key_id key = build_hls enc mpd r2 key_id key"
    by (intro build_hls_same_map) blast+
qed

theorem build_hls_repeatable_witness:
  "build_hls sample_encode (sample_mpd [sample_video, sample_audio ''a1'' None])
     sample_request None (Some ''k'')
   = build_hls sample_encode (sample_mpd [sample_video, sample_audio ''a1'' None])
       (sample_request\<lparr>query_params := [(''has_encrypted'', ''false''), (''d'', ''http://o/m.mpd'')]\<rparr>)
       None (Some ''k'')"
proof -
  let ?r2 = "sample_request\<lparr>query_params := [(''has_encrypted'', ''false''), (''d'', ''http://o/m.mpd'')]\<rparr>"
  have h1: "\<forall>u qp qp' e. map_of qp = map_of qp' \<longrightarrow> sample_encode u qp e = sample_encode u qp' e"
    by (intro allI impI) (simp add: sample_encode_def cong: option.case_cong)
  have h2: "map_of (query_params sample_request) = map_of (query_params ?r2)"
    by (auto simp add: sample_request_def fun_eq_iff)
  have h3: "playlist_endpoint sample_request = playlist_endpoint ?r2" by simp
  from build_hls_repeatable[of sample_encode None "Some ''k''" "(sample_mpd [], sample_request)"
      sample_request ?r2 "sample_mpd [sample_video, sample_audio ''a1'' None]",
      THEN conjunct2, THEN conjunct2, rule_format, OF conjI[OF h1 conjI[OF h2 h3]]]
  show ?thesis .
qed

end
